theory Spec2Isabelle
  imports Main "HOL-Library.Word"
begin

section \<open>Types, constants and opcodes of the host IR\<close>

text \<open>
  The region vectorizer works on LLVM IR. The parts of the IR that the verified
  functions inspect are modelled here: the type tags tested by \<open>isStructTy\<close>,
  \<open>isVectorTy\<close> and \<open>isFloatingPointTy\<close>, the instruction opcodes with the numbering
  of LLVM's instruction table, and the constants built by the constant factories
  (\<open>ConstantInt::get\<close>, \<open>ConstantFP::get\<close>, \<open>UndefValue::get\<close>,
  \<open>ConstantVector::get\<close>). The type tags are LLVM's type ids.
\<close>

datatype Type =
    VoidTy
  | HalfTy
  | FloatTy
  | DoubleTy
  | X86_FP80Ty
  | FP128Ty
  | PPC_FP128Ty
  | LabelTy
  | MetadataTy
  | X86_MMXTy
  | TokenTy
  | IntegerTy nat
  | FunctionTy
  | StructTy "Type list"
  | ArrayTy Type nat
  | PointerTy Type
  | VectorTy Type nat

fun isVoidTy :: "Type \<Rightarrow> bool" where
  "isVoidTy VoidTy = True"
| "isVoidTy _ = False"

fun isFloatingPointTy :: "Type \<Rightarrow> bool" where
  "isFloatingPointTy HalfTy = True"
| "isFloatingPointTy FloatTy = True"
| "isFloatingPointTy DoubleTy = True"
| "isFloatingPointTy X86_FP80Ty = True"
| "isFloatingPointTy FP128Ty = True"
| "isFloatingPointTy PPC_FP128Ty = True"
| "isFloatingPointTy _ = False"

fun isIntegerTy :: "Type \<Rightarrow> bool" where
  "isIntegerTy (IntegerTy _) = True"
| "isIntegerTy _ = False"

fun isPointerTy :: "Type \<Rightarrow> bool" where
  "isPointerTy (PointerTy _) = True"
| "isPointerTy _ = False"

fun isStructTy :: "Type \<Rightarrow> bool" where
  "isStructTy (StructTy _) = True"
| "isStructTy _ = False"

fun isVectorTy :: "Type \<Rightarrow> bool" where
  "isVectorTy (VectorTy _ _) = True"
| "isVectorTy _ = False"

text \<open>\<open>Type::getScalarType\<close>: the element type of a vector type, the type itself otherwise.\<close>

fun getScalarType :: "Type \<Rightarrow> Type" where
  "getScalarType (VectorTy t n) = t"
| "getScalarType t = t"

fun getIntegerBitWidth :: "Type \<Rightarrow> nat" where
  "getIntegerBitWidth (IntegerTy w) = w"
| "getIntegerBitWidth _ = 0"

text \<open>The reduction kinds named by the data model (add, mul, min, max, or, and, xor).\<close>

datatype RedKind = RedAdd | RedMul | RedMin | RedMax | RedOr | RedAnd | RedXor

text \<open>
  Constants. An integer constant holds its value as an unsigned number. Of the
  floating-point values only those occur that a conversion from an \<open>unsigned\<close> yields:
  the non-negative integers and plus infinity. The type of a constant is the type it was
  made for; that of a vector constant comes from its elements.
\<close>

datatype APFloat = FiniteValue nat | PlusInfinity

datatype Constant =
    ConstantInt Type nat
  | ConstantFP Type APFloat
  | UndefValue Type
  | NeutralElement RedKind Type
  | ConstantVector "Constant list"

fun Constant_getType :: "Constant \<Rightarrow> Type" where
  "Constant_getType (ConstantInt ty v) = ty"
| "Constant_getType (ConstantFP ty v) = ty"
| "Constant_getType (UndefValue ty) = ty"
| "Constant_getType (NeutralElement k ty) = ty"
| "Constant_getType (ConstantVector cs) =
     VectorTy (case cs of [] \<Rightarrow> VoidTy | c # _ \<Rightarrow> Constant_getType c) (length cs)"

text \<open>
  The opcodes, grouped as LLVM's instruction table groups them (terminators, binary
  operators, memory operators, casts, funclet pads, others), and
  \<open>Instruction::getOpcode\<close>, the position in that table.
\<close>

datatype TermOps =
    Ret | Br | Switch | IndirectBr | Invoke | Resume | Unreachable
  | CleanupRet | CatchRet | CatchSwitch
datatype BinaryOps =
    Add | FAdd | Sub | FSub | Mul | FMul | UDiv | SDiv | FDiv
  | URem | SRem | FRem | Shl | LShr | AShr | And | Or | Xor
datatype MemoryOps =
    Alloca | Load | Store | GetElementPtr | Fence | AtomicCmpXchg | AtomicRMW
datatype CastOps =
    Trunc | ZExt | SExt | FPToUI | FPToSI | UIToFP | SIToFP | FPTrunc | FPExt
  | PtrToInt | IntToPtr | BitCast | AddrSpaceCast
datatype FuncletPadOps = CleanupPad | CatchPad
datatype OtherOps =
    ICmp | FCmp | PHI | Call | Select | UserOp1 | UserOp2 | VAArg
  | ExtractElement | InsertElement | ShuffleVector | ExtractValue | InsertValue
  | LandingPad
datatype Opcode =
    TermOp TermOps | BinaryOp BinaryOps | MemoryOp MemoryOps | CastOp CastOps
  | FuncletPadOp FuncletPadOps | OtherOp OtherOps

primrec termOpcode :: "TermOps \<Rightarrow> nat" where
  "termOpcode Ret = 1" | "termOpcode Br = 2" | "termOpcode Switch = 3"
| "termOpcode IndirectBr = 4" | "termOpcode Invoke = 5" | "termOpcode Resume = 6"
| "termOpcode Unreachable = 7" | "termOpcode CleanupRet = 8" | "termOpcode CatchRet = 9"
| "termOpcode CatchSwitch = 10"

primrec binaryOpcode :: "BinaryOps \<Rightarrow> nat" where
  "binaryOpcode Add = 11" | "binaryOpcode FAdd = 12" | "binaryOpcode Sub = 13"
| "binaryOpcode FSub = 14" | "binaryOpcode Mul = 15" | "binaryOpcode FMul = 16"
| "binaryOpcode UDiv = 17" | "binaryOpcode SDiv = 18" | "binaryOpcode FDiv = 19"
| "binaryOpcode URem = 20" | "binaryOpcode SRem = 21" | "binaryOpcode FRem = 22"
| "binaryOpcode Shl = 23" | "binaryOpcode LShr = 24" | "binaryOpcode AShr = 25"
| "binaryOpcode And = 26" | "binaryOpcode Or = 27" | "binaryOpcode Xor = 28"

primrec memoryOpcode :: "MemoryOps \<Rightarrow> nat" where
  "memoryOpcode Alloca = 29" | "memoryOpcode Load = 30" | "memoryOpcode Store = 31"
| "memoryOpcode GetElementPtr = 32" | "memoryOpcode Fence = 33"
| "memoryOpcode AtomicCmpXchg = 34" | "memoryOpcode AtomicRMW = 35"

primrec castOpcode :: "CastOps \<Rightarrow> nat" where
  "castOpcode Trunc = 36" | "castOpcode ZExt = 37" | "castOpcode SExt = 38"
| "castOpcode FPToUI = 39" | "castOpcode FPToSI = 40" | "castOpcode UIToFP = 41"
| "castOpcode SIToFP = 42" | "castOpcode FPTrunc = 43" | "castOpcode FPExt = 44"
| "castOpcode PtrToInt = 45" | "castOpcode IntToPtr = 46" | "castOpcode BitCast = 47"
| "castOpcode AddrSpaceCast = 48"

primrec funcletPadOpcode :: "FuncletPadOps \<Rightarrow> nat" where
  "funcletPadOpcode CleanupPad = 49" | "funcletPadOpcode CatchPad = 50"

primrec otherOpcode :: "OtherOps \<Rightarrow> nat" where
  "otherOpcode ICmp = 51" | "otherOpcode FCmp = 52" | "otherOpcode PHI = 53"
| "otherOpcode Call = 54" | "otherOpcode Select = 55" | "otherOpcode UserOp1 = 56"
| "otherOpcode UserOp2 = 57" | "otherOpcode VAArg = 58"
| "otherOpcode ExtractElement = 59" | "otherOpcode InsertElement = 60"
| "otherOpcode ShuffleVector = 61" | "otherOpcode ExtractValue = 62"
| "otherOpcode InsertValue = 63" | "otherOpcode LandingPad = 64"

primrec getOpcode :: "Opcode \<Rightarrow> nat" where
  "getOpcode (TermOp t) = termOpcode t"
| "getOpcode (BinaryOp b) = binaryOpcode b"
| "getOpcode (MemoryOp m) = memoryOpcode m"
| "getOpcode (CastOp c) = castOpcode c"
| "getOpcode (FuncletPadOp f) = funcletPadOpcode f"
| "getOpcode (OtherOp x) = otherOpcode x"

definition BinaryOpsBegin :: nat where "BinaryOpsBegin = 11"
definition BinaryOpsEnd :: nat where "BinaryOpsEnd = 29"
definition CastOpsBegin :: nat where "CastOpsBegin = 36"
definition CastOpsEnd :: nat where "CastOpsEnd = 49"
definition OtherOpsBegin :: nat where "OtherOpsBegin = 51"
definition OtherOpsEnd :: nat where "OtherOpsEnd = 65"

definition isBinaryOp :: "Opcode \<Rightarrow> bool" where
  "isBinaryOp oc \<longleftrightarrow> BinaryOpsBegin \<le> getOpcode oc \<and> getOpcode oc < BinaryOpsEnd"

definition isCast :: "Opcode \<Rightarrow> bool" where
  "isCast oc \<longleftrightarrow> CastOpsBegin \<le> getOpcode oc \<and> getOpcode oc < CastOpsEnd"

section \<open>native/Utils.cpp\<close>

subsection \<open>isSupportedOperation\<close>

text \<open>
  What \<open>isSupportedOperation\<close> reads of an instruction: its opcode and, when it is a
  call, the return type of the called function type.
\<close>

record Inst =
  opcode :: Opcode
  calleeRetTy :: Type

definition isSupportedOperation :: "Inst \<Rightarrow> bool" where
  "isSupportedOperation inst =
     (if opcode inst = OtherOp Call \<and> (isStructTy (calleeRetTy inst) \<or> isVectorTy (calleeRetTy inst))
      then False
      else isBinaryOp (opcode inst) \<or> opcode inst = MemoryOp Load \<or> opcode inst = MemoryOp Store \<or>
           isCast (opcode inst) \<or> opcode inst = TermOp Ret \<or>
           (opcode inst \<noteq> OtherOp ExtractElement \<and> opcode inst \<noteq> OtherOp ExtractValue \<and>
            opcode inst \<noteq> OtherOp InsertElement \<and> opcode inst \<noteq> OtherOp InsertValue \<and>
            opcode inst \<noteq> OtherOp ShuffleVector \<and>
            (OtherOpsBegin \<le> getOpcode (opcode inst) \<and> getOpcode (opcode inst) \<le> OtherOpsEnd)))"

subsection \<open>getConstantVectorPadded\<close>

text \<open>
  What ends a run without a result: a failed assertion of LLVM, or an access outside a
  buffer.
\<close>

datatype error =
    IndexOutOfBounds
  | NullElement
  | EmptyVector
  | NotAnIntegerType
  | InvalidElementType
  | OperandOutOfRange
  | NoSuchInstruction
  | LatchNotAnInstruction
  | UserNotAnInstruction

text \<open>
  \<open>ConstantInt::get(type, V)\<close>. The scalar type of \<open>type\<close> has to be an integer type
  (\<open>cast<IntegerType>\<close> asserts it). The value is \<open>V\<close> cut to the bit width of that
  type (the \<open>APInt\<close> keeps the low bits). For a vector type the result is the splat of
  the scalar constant.
\<close>

definition ConstantInt_get :: "Type \<Rightarrow> nat \<Rightarrow> error + Constant" where
  "ConstantInt_get ty V =
     (case getScalarType ty of
        IntegerTy w \<Rightarrow>
          (let C = ConstantInt (IntegerTy w) (V mod 2 ^ w)
           in case ty of VectorTy t n \<Rightarrow> Inr (ConstantVector (replicate n C)) | _ \<Rightarrow> Inr C)
      | _ \<Rightarrow> Inl NotAnIntegerType)"

text \<open>
  The floating-point formats: the number of bits of the significand, and the largest
  exponent of a finite value.
\<close>

fun fltPrecision :: "Type \<Rightarrow> nat" where
  "fltPrecision HalfTy = 11"
| "fltPrecision FloatTy = 24"
| "fltPrecision DoubleTy = 53"
| "fltPrecision X86_FP80Ty = 64"
| "fltPrecision FP128Ty = 113"
| "fltPrecision PPC_FP128Ty = 106"
| "fltPrecision _ = 0"

fun fltMaxExponent :: "Type \<Rightarrow> nat" where
  "fltMaxExponent HalfTy = 15"
| "fltMaxExponent FloatTy = 127"
| "fltMaxExponent DoubleTy = 1023"
| "fltMaxExponent X86_FP80Ty = 16383"
| "fltMaxExponent FP128Ty = 16383"
| "fltMaxExponent PPC_FP128Ty = 1023"
| "fltMaxExponent _ = 0"

text \<open>
  \<open>ConstantFP::get(type, V)\<close> converts the number to the format of \<open>type\<close>, rounding to
  the nearest value and a tie to the even significand (\<open>APFloat::convert\<close> with
  \<open>rmNearestTiesToEven\<close>); a rounded value beyond the largest finite one is infinity.
  The number is an \<open>unsigned\<close> here, which a \<open>double\<close> holds exactly.
\<close>

fun bitLength :: "nat \<Rightarrow> nat" where
  "bitLength n = (if n = 0 then 0 else Suc (bitLength (n div 2)))"

declare bitLength.simps [simp del]

definition roundNearestEven :: "nat \<Rightarrow> nat \<Rightarrow> nat" where
  "roundNearestEven p v =
     (if bitLength v \<le> p then v
      else
        (let e = bitLength v - p;
             q = v div 2 ^ e;
             r = v mod 2 ^ e;
             half = 2 ^ (e - 1)
         in (if r < half \<or> (r = half \<and> even q) then q else q + 1) * 2 ^ e))"

definition convert :: "Type \<Rightarrow> nat \<Rightarrow> APFloat" where
  "convert ty v =
     (let r = roundNearestEven (fltPrecision ty) v
      in if 2 ^ Suc (fltMaxExponent ty) \<le> r then PlusInfinity else FiniteValue r)"

definition ConstantFP_get :: "Type \<Rightarrow> nat \<Rightarrow> Constant" where
  "ConstantFP_get ty V = ConstantFP ty (convert ty V)"

text \<open>
  The constant a lane gets: \<open>ConstantFP::get(type, v)\<close> for a floating-point type,
  \<open>ConstantInt::get(type, v)\<close> otherwise.
\<close>

definition laneConstant :: "Type \<Rightarrow> 32 word \<Rightarrow> error + Constant" where
  "laneConstant type v =
     (if isFloatingPointTy type then Inr (ConstantFP_get type (unat v)) else ConstantInt_get type (unat v))"

text \<open>
  The first loop, \<open>for (; i < values.size(); ++i) constants[i] = ...\<close>. The buffer
  \<open>constants\<close> has \<open>width\<close> entries, all null at first (\<open>None\<close>); the constant is made
  first, then written; a write at an index outside the buffer is the error
  \<open>IndexOutOfBounds\<close>. The counter \<open>i\<close> is an \<open>unsigned\<close>; it stays below \<open>2 ^ 32\<close>
  here, since the loop goes on only while \<open>i\<close> is below the buffer's size, which is an
  \<open>unsigned\<close> itself.
\<close>

function fillValues ::
  "Type \<Rightarrow> 32 word list \<Rightarrow> nat \<Rightarrow> Constant option list \<Rightarrow> error + nat \<times> Constant option list"
where
  "fillValues type values i constants =
     (if i < length values then
        (case laneConstant type (values ! i) of
           Inl e \<Rightarrow> Inl e
         | Inr constant \<Rightarrow>
             if i < length constants
             then fillValues type values (Suc i) (constants[i := Some constant])
             else Inl IndexOutOfBounds)
      else Inr (i, constants))"
  by pat_completeness auto
termination
  by (relation "measure (\<lambda>(type, values, i, constants). length values - i)") auto

declare fillValues.simps [simp del]

text \<open>The second loop, \<open>for (; i < width; ++i) constants[i] = padding\<close>.\<close>

function fillPadding ::
  "nat \<Rightarrow> Constant \<Rightarrow> nat \<Rightarrow> Constant option list \<Rightarrow> error + Constant option list"
where
  "fillPadding width padding i constants =
     (if i < width then
        (if i < length constants
         then fillPadding width padding (Suc i) (constants[i := Some padding])
         else Inl IndexOutOfBounds)
      else Inr constants)"
  by pat_completeness auto
termination
  by (relation "measure (\<lambda>(width, padding, i, constants). width - i)") auto

declare fillPadding.simps [simp del]

text \<open>
  \<open>ConstantVector::get\<close> of a buffer of element pointers. LLVM asserts that the buffer
  is not empty, and takes the type of the first element as the element type of a vector
  type, which has to be an integer, floating-point or pointer type
  (\<open>VectorType::isValidElementType\<close>); no element may be null.
\<close>

definition isValidElementType :: "Type \<Rightarrow> bool" where
  "isValidElementType ty \<longleftrightarrow> isIntegerTy ty \<or> isFloatingPointTy ty \<or> isPointerTy ty"

definition ConstantVector_get :: "Constant option list \<Rightarrow> error + Constant" where
  "ConstantVector_get V =
     (case V of
        [] \<Rightarrow> Inl EmptyVector
      | None # _ \<Rightarrow> Inl NullElement
      | Some front # _ \<Rightarrow>
          if \<not> isValidElementType (Constant_getType front) then Inl InvalidElementType
          else if None \<in> set V then Inl NullElement
          else Inr (ConstantVector (map the V)))"

text \<open>
  \<open>getConstantVectorPadded\<close>. The zero constant is made after the first loop, whether
  it is used as the padding or not.
\<close>

definition getConstantVectorPadded ::
  "32 word \<Rightarrow> Type \<Rightarrow> 32 word list \<Rightarrow> bool \<Rightarrow> error + Constant"
where
  "getConstantVectorPadded width type values padWithZero =
     (let constants = replicate (unat width) None in
      case fillValues type values 0 constants of
        Inl e \<Rightarrow> Inl e
      | Inr (i, constants) \<Rightarrow>
          (case laneConstant type 0 of
             Inl e \<Rightarrow> Inl e
           | Inr zeroConst \<Rightarrow>
               (let padding = (if padWithZero then zeroConst else UndefValue type)
                in case fillPadding (unat width) padding i constants of
                     Inl e \<Rightarrow> Inl e
                   | Inr constants \<Rightarrow> ConstantVector_get constants)))"

text \<open>
  A number fits a type when the conversion to the type does not change it: it is below
  \<open>2 ^ w\<close> for the integer type of \<open>w\<close> bits, and the significand of a floating-point
  type holds it. The constant of a number that fits is exact.
\<close>

definition fits :: "Type \<Rightarrow> nat \<Rightarrow> bool" where
  "fits ty v \<longleftrightarrow> (case ty of IntegerTy w \<Rightarrow> v < 2 ^ w | _ \<Rightarrow> isFloatingPointTy ty \<and> bitLength v \<le> fltPrecision ty)"

definition exact :: "Type \<Rightarrow> nat \<Rightarrow> Constant" where
  "exact ty v = (if isFloatingPointTy ty then ConstantFP ty (FiniteValue v) else ConstantInt ty v)"


subsection \<open>createCascadeBlocks\<close>

text \<open>
  A function is the list of its basic blocks, in layout order; a block is known by its
  address and carries a name. The function has a symbol table with the names of its
  values (arguments, instructions, blocks) and a counter \<open>LastUnique\<close> for making names
  unique; its context may be set to discard the names of values.
\<close>

record Function =
  blocks :: "nat list"
  blockName :: "nat \<Rightarrow> string"
  symtab :: "string list"
  LastUnique :: "32 word"
  discardValueNames :: bool

text \<open>\<open>std::to_string\<close> of an unsigned number: its decimal digits.\<close>

fun to_string :: "nat \<Rightarrow> string" where
  "to_string n = (if n < 10 then [''0123456789'' ! n]
                  else to_string (n div 10) @ [''0123456789'' ! (n mod 10)])"

declare to_string.simps [simp del]

text \<open>
  \<open>ValueSymbolTable::makeUniqueName\<close>: the loop appends the next value of the counter
  to the base name until the name is not in the table. The counter has 32 bits and
  wraps. After \<open>2 ^ 32\<close> attempts it has taken every value and the table has not
  changed, so the loop goes on forever: that is the result \<open>None\<close>.
\<close>

fun makeUniqueName :: "nat \<Rightarrow> string list \<Rightarrow> string \<Rightarrow> 32 word \<Rightarrow> (string \<times> 32 word) option" where
  "makeUniqueName attempts vmap baseName lastUnique =
     (if attempts = 0 then None
      else
        (let lastUnique' = lastUnique + 1;
             uniqueName = baseName @ to_string (unat lastUnique')
         in if uniqueName \<in> set vmap
            then makeUniqueName (attempts - 1) vmap baseName lastUnique'
            else Some (uniqueName, lastUnique')))"

declare makeUniqueName.simps [simp del]

text \<open>
  \<open>ValueSymbolTable::createValueName\<close>: the name itself when it is free, a unique name
  made from it otherwise; the name enters the table.
\<close>

definition createValueName :: "string \<Rightarrow> Function \<Rightarrow> (string \<times> Function) option" where
  "createValueName name f =
     (if name \<notin> set (symtab f) then Some (name, f\<lparr>symtab := name # symtab f\<rparr>)
      else
        case makeUniqueName (2 ^ 32) (symtab f) name (LastUnique f) of
          None \<Rightarrow> None
        | Some (uniqueName, lastUnique') \<Rightarrow>
            Some (uniqueName, f\<lparr>symtab := uniqueName # symtab f, LastUnique := lastUnique'\<rparr>))"

text \<open>
  \<open>Value::setName\<close> for a block of the function: nothing happens when the context
  discards value names or when the name does not change.
\<close>

definition setName :: "nat \<Rightarrow> string \<Rightarrow> Function \<Rightarrow> Function option" where
  "setName bb newName f =
     (if discardValueNames f then Some f
      else if newName = blockName f bb then Some f
      else
        case createValueName newName f of
          None \<Rightarrow> None
        | Some (name, f') \<Rightarrow> Some (f'\<lparr>blockName := (blockName f')(bb := name)\<rparr>))"

text \<open>
  \<open>BasicBlock::Create(context, name, insertInto)\<close> allocates a block at an address no
  block of the function has, appends it to the function and then sets its name.
\<close>

definition BasicBlock_Create :: "string \<Rightarrow> Function \<Rightarrow> (nat \<times> Function) option" where
  "BasicBlock_Create name insertInto =
     (let bb = Suc (fold max (blocks insertInto) 0);
          f = insertInto\<lparr>blocks := blocks insertInto @ [bb],
                         blockName := (blockName insertInto)(bb := [])\<rparr>
      in case setName bb name f of None \<Rightarrow> None | Some f' \<Rightarrow> Some (bb, f'))"

text \<open>
  The loop \<open>for (unsigned lane = 0; lane < vectorWidth; ++lane)\<close>, on the function
  and the two output vectors.
\<close>

function createCascadeLoop ::
  "nat \<Rightarrow> nat \<Rightarrow> Function \<times> nat list \<times> nat list \<Rightarrow> (Function \<times> nat list \<times> nat list) option"
where
  "createCascadeLoop vectorWidth lane (insertInto, condBlocks, maskedBlocks) =
     (if lane < vectorWidth then
        (case BasicBlock_Create (''cascade_cond_'' @ to_string lane) insertInto of
           None \<Rightarrow> None
         | Some (cond, f1) \<Rightarrow>
             (case BasicBlock_Create (''cascade_masked_'' @ to_string lane) f1 of
                None \<Rightarrow> None
              | Some (mask_bb, f2) \<Rightarrow>
                  createCascadeLoop vectorWidth (Suc lane)
                    (f2, condBlocks @ [cond], maskedBlocks @ [mask_bb])))
      else Some (insertInto, condBlocks, maskedBlocks))"
  by pat_completeness auto
termination
  by (relation "measure (\<lambda>(vectorWidth, lane, st). vectorWidth - lane)") auto

declare createCascadeLoop.simps [simp del]

definition createCascadeBlocks ::
  "Function \<Rightarrow> 32 word \<Rightarrow> nat list \<Rightarrow> nat list \<Rightarrow> (nat \<times> Function \<times> nat list \<times> nat list) option"
where
  "createCascadeBlocks insertInto vectorWidth condBlocks maskedBlocks =
     (case createCascadeLoop (unat vectorWidth) 0 (insertInto, condBlocks, maskedBlocks) of
        None \<Rightarrow> None
      | Some (f, condBlocks', maskedBlocks') \<Rightarrow>
          (case BasicBlock_Create ''cascade_end'' f of
             None \<Rightarrow> None
           | Some (end_bb, f') \<Rightarrow> Some (end_bb, f', condBlocks', maskedBlocks')))"

text \<open>The layout of block pairs: \<open>c0, m0, c1, m1, ...\<close>\<close>

definition interleave :: "nat list \<Rightarrow> nat list \<Rightarrow> nat list" where
  "interleave cs ms = concat (map (\<lambda>(c, m). [c, m]) (zip cs ms))"

text \<open>The names that are asked for, and what it is for a name to begin with another.\<close>

definition condName :: "nat \<Rightarrow> string" where
  "condName lane = ''cascade_cond_'' @ to_string lane"

definition maskedName :: "nat \<Rightarrow> string" where
  "maskedName lane = ''cascade_masked_'' @ to_string lane"

definition hasPrefix :: "string \<Rightarrow> string \<Rightarrow> bool" where
  "hasPrefix p name \<longleftrightarrow> take (length p) name = p"

text \<open>A function with two named blocks.\<close>

definition exampleFunction :: Function where
  "exampleFunction = \<lparr>blocks = [4, 2], blockName = (\<lambda>b. if b = 4 then ''entry'' else if b = 2 then ''exit'' else []),
     symtab = [''exit'', ''entry''], LastUnique = 0, discardValueNames = False\<rparr>"


section \<open>rv.cpp: the linearization driver\<close>

text \<open>
  \<open>VectorizerInterface::linearize\<close> is a straight sequence of calls into collaborators
  whose code is not part of the verified sources: the dominator and post-dominator
  trees' \<open>recalculate\<close>, the constructors of \<open>MaskExpander\<close>, \<open>DivLoopTrans\<close> and
  \<open>Linearizer\<close>, and the passes \<open>transformDivergentLoops\<close>, \<open>expandRegionMasks\<close> and
  \<open>Linearizer::run\<close>. They are parameters of the model: each is a transformer of the
  shared state \<open>'s\<close> (the function, the vectorization info and the analyses). The
  debug-only statements (\<open>IF_DEBUG\<close>) are left out.
\<close>

record 's Collaborators =
  domTree_recalculate :: "'s \<Rightarrow> 's"
  postDomTree_recalculate :: "'s \<Rightarrow> 's"
  MaskExpander_construct :: "'s \<Rightarrow> 's"
  DivLoopTrans_construct :: "'s \<Rightarrow> 's"
  transformDivergentLoops :: "'s \<Rightarrow> 's"
  expandRegionMasks :: "'s \<Rightarrow> 's"
  Linearizer_construct :: "'s \<Rightarrow> 's"
  Linearizer_run :: "'s \<Rightarrow> 's"

definition linearize :: "'s Collaborators \<Rightarrow> 's \<Rightarrow> bool \<times> 's" where
  "linearize c s0 =
     (let s1 = domTree_recalculate c s0;
          s2 = MaskExpander_construct c s1;
          s3 = DivLoopTrans_construct c s2;
          s4 = transformDivergentLoops c s3;
          s5 = postDomTree_recalculate c s4;
          s6 = domTree_recalculate c s5;
          s7 = expandRegionMasks c s6;
          s8 = Linearizer_construct c s7;
          s9 = Linearizer_run c s8
      in (True, s9))"

text \<open>
  The order of the calls is observed by running \<open>linearize\<close> on collaborators that
  do nothing but append their own name to a log.
\<close>

datatype Event =
    DomTreeRecalculate
  | PostDomTreeRecalculate
  | MaskExpanderConstruct
  | DivLoopTransConstruct
  | TransformDivergentLoops
  | ExpandRegionMasks
  | LinearizerConstruct
  | LinearizerRun

definition logging :: "Event list Collaborators" where
  "logging =
     \<lparr>domTree_recalculate = (\<lambda>log. log @ [DomTreeRecalculate]),
      postDomTree_recalculate = (\<lambda>log. log @ [PostDomTreeRecalculate]),
      MaskExpander_construct = (\<lambda>log. log @ [MaskExpanderConstruct]),
      DivLoopTrans_construct = (\<lambda>log. log @ [DivLoopTransConstruct]),
      transformDivergentLoops = (\<lambda>log. log @ [TransformDivergentLoops]),
      expandRegionMasks = (\<lambda>log. log @ [ExpandRegionMasks]),
      Linearizer_construct = (\<lambda>log. log @ [LinearizerConstruct]),
      Linearizer_run = (\<lambda>log. log @ [LinearizerRun])\<rparr>"

text \<open>The passes among the events, as opposed to object construction.\<close>

fun isPass :: "Event \<Rightarrow> bool" where
  "isPass MaskExpanderConstruct = False"
| "isPass DivLoopTransConstruct = False"
| "isPass LinearizerConstruct = False"
| "isPass _ = True"

section \<open>rv/transform/remTransform.h: the remainder transform\<close>

text \<open>
  Modelled from the spec: the member functions of \<open>RemainderTransform\<close>
  (\<open>canHandleExitCondition\<close>, \<open>canTransformLoop\<close>, \<open>createVectorizableLoop\<close>) are only
  declared in the header; their bodies are not among the sources. The model follows
  the component design: a loop has an exit test, which the transform understands when
  it is a single canonical induction-variable comparison against a bound, further
  structure that the full check inspects, and a trip count. The two checks read the
  function and return it as it was. \<open>createVectorizableLoop\<close> runs both checks before
  it changes anything and returns none when one fails; otherwise it replaces the loop
  by a main loop, whose trip count is the largest multiple of the vector width below
  the original trip count, and a remainder loop with the left-over iterations.
\<close>

datatype ExitTest = InductionCompare | OtherExit

record Loop =
  exitTest :: ExitTest
  bodySupported :: bool
  tripCount :: nat

record RemFunction =
  loops :: "Loop list"

definition canHandleExitCondition :: "RemFunction \<Rightarrow> Loop \<Rightarrow> bool \<times> RemFunction" where
  "canHandleExitCondition F L = (exitTest L = InductionCompare, F)"

definition canTransformLoop :: "RemFunction \<Rightarrow> Loop \<Rightarrow> bool \<times> RemFunction" where
  "canTransformLoop F L =
     (let (handled, F') = canHandleExitCondition F L
      in (handled \<and> bodySupported L, F'))"

definition createVectorizableLoop ::
  "RemFunction \<Rightarrow> Loop \<Rightarrow> nat set \<Rightarrow> int \<Rightarrow> int \<Rightarrow> Loop option \<times> RemFunction"
where
  "createVectorizableLoop F L uniOverrides vectorWidth tripAlign =
     (let (handled, F1) = canHandleExitCondition F L in
      if \<not> handled then (None, F1)
      else
        let (transformable, F2) = canTransformLoop F1 L in
        if \<not> transformable then (None, F2)
        else
          let W = nat vectorWidth;
              mainLoop = L\<lparr>tripCount := (tripCount L div W) * W\<rparr>;
              remainder = L\<lparr>tripCount := tripCount L mod W\<rparr>
          in (Some mainLoop, F2\<lparr>loops := mainLoop # remainder # remove1 L (loops F2)\<rparr>))"

section \<open>transform/redOpt.cpp: the reduction optimizer\<close>

text \<open>
  The IR as the reduction optimizer sees it. A value is an instruction (known by its
  address), a constant or a function argument. An instruction has a kind (a phi node,
  an operator of a reduction kind, a select, or anything else), its operands, its
  parent block and its type.
\<close>

datatype Value = VInst nat | VConst Constant | VArg nat

datatype InstKind = PHINode | ReductInst RedKind | SelectInst | OtherInst

record Instruction =
  instKind :: InstKind
  operands :: "Value list"
  parent :: nat
  getType :: Type

text \<open>
  The function body is the list of its instructions in layout order, each under its
  address; the instructions of a block are those whose parent is the block, in that
  order. LLVM keeps for every value the list of its uses (a use is an operand slot: a
  user and an operand number), and a slot that is set to a value is pushed at the front
  of that value's list. The model keeps one list of all operand slots, most recently
  set first (\<open>useOrder\<close>); the use list of a value is the slots that hold it now, in
  that order. So a slot is in the use list of exactly the value it holds.
\<close>

record IR =
  insts :: "(nat \<times> Instruction) list"
  useOrder :: "(nat \<times> nat) list"

definition getInst :: "IR \<Rightarrow> nat \<Rightarrow> Instruction option" where
  "getInst s i = map_of (insts s) i"

definition getOperand :: "IR \<Rightarrow> nat \<Rightarrow> nat \<Rightarrow> Value option" where
  "getOperand s user opIdx =
     (case getInst s user of
        None \<Rightarrow> None
      | Some inst \<Rightarrow> if opIdx < length (operands inst) then Some (operands inst ! opIdx) else None)"

definition uses :: "IR \<Rightarrow> Value \<Rightarrow> (nat \<times> nat) list" where
  "uses s v = filter (\<lambda>(user, opIdx). getOperand s user opIdx = Some v) (useOrder s)"

definition getNumUses :: "IR \<Rightarrow> Value \<Rightarrow> nat" where
  "getNumUses s v = length (uses s v)"

text \<open>
  \<open>User::setOperand\<close>: the slot leaves the use list of the value it held and is pushed
  at the front of the use list of the new value.
\<close>

definition setOperand :: "IR \<Rightarrow> nat \<Rightarrow> nat \<Rightarrow> Value \<Rightarrow> IR" where
  "setOperand s user opIdx v =
     s\<lparr>insts := map (\<lambda>(i, inst). if i = user then (i, inst\<lparr>operands := (operands inst)[opIdx := v]\<rparr>)
                                 else (i, inst)) (insts s),
       useOrder := (user, opIdx) # removeAll (user, opIdx) (useOrder s)\<rparr>"

definition blockInsts :: "IR \<Rightarrow> nat \<Rightarrow> nat list" where
  "blockInsts s bb = map fst (filter (\<lambda>(i, inst). parent inst = bb) (insts s))"

text \<open>
  A new instruction is allocated at an address that no instruction of the function has.
\<close>

definition newInstId :: "IR \<Rightarrow> nat" where
  "newInstId s = Suc (fold max (map fst (insts s)) 0)"

text \<open>
  Insertion of a new entry right after the entry with key \<open>pos\<close> (at the end when there
  is none).
\<close>

fun insertAfter :: "nat \<Rightarrow> nat \<times> 'a \<Rightarrow> (nat \<times> 'a) list \<Rightarrow> (nat \<times> 'a) list" where
  "insertAfter pos new [] = [new]"
| "insertAfter pos new (x # xs) = (if fst x = pos then x # new # xs else x # insertAfter pos new xs)"

text \<open>
  Modelled from the spec: \<open>rv/vectorizationInfo.h\<close> is not among the sources. Of
  \<open>VectorizationInfo\<close> the optimizer uses the region (none in whole-function mode,
  where every instruction counts as inside), its entry block, and the shape of a value
  (uniform, varying, strided or undefined). \<open>inRegion\<close> asks whether the parent block
  of an instruction belongs to the region.
\<close>

datatype VectorShape = Uniform | Varying | Strided int | Undefined

record VectorizationInfo =
  region :: "nat set option"
  entry :: nat
  shapes :: "Value \<Rightarrow> VectorShape"

definition getVectorShape :: "VectorizationInfo \<Rightarrow> Value \<Rightarrow> VectorShape" where
  "getVectorShape vecInfo v = shapes vecInfo v"

definition setVectorShape :: "VectorizationInfo \<Rightarrow> Value \<Rightarrow> VectorShape \<Rightarrow> VectorizationInfo" where
  "setVectorShape vecInfo v shape = vecInfo\<lparr>shapes := (shapes vecInfo)(v := shape)\<rparr>"

definition inRegion :: "VectorizationInfo \<Rightarrow> Instruction \<Rightarrow> bool" where
  "inRegion vecInfo inst = (case region vecInfo of None \<Rightarrow> True | Some bbs \<Rightarrow> parent inst \<in> bbs)"

text \<open>
  Modelled from the spec: \<open>rv/analysis/reductionAnalysis.h\<close> and
  \<open>rv/transform/redTools.h\<close> are not among the sources. Of a \<open>Reduction\<close> the optimizer
  reads its kind. \<open>GetNeutralElement\<close> is the identity constant of the reduction's
  operation at the given type, kept symbolic. \<open>CreateReductInst\<close> creates one
  instruction that combines its two arguments with the reduction's operation, and
  inserts it at the builder's insertion point; the builder is the pair of a block and
  the instruction after which it inserts. The operands are set first to last.
\<close>

record Reduction =
  kind :: RedKind

definition GetNeutralElement :: "RedKind \<Rightarrow> Type \<Rightarrow> Constant" where
  "GetNeutralElement redKind chainTy = NeutralElement redKind chainTy"

definition CreateReductInst ::
  "IR \<Rightarrow> nat \<times> nat \<Rightarrow> RedKind \<Rightarrow> nat \<Rightarrow> nat \<Rightarrow> nat \<times> IR"
where
  "CreateReductInst s builder redKind firstArg secondArg =
     (let (bb, insertPos) = builder;
          new = newInstId s;
          inst = \<lparr>instKind = ReductInst redKind,
                  operands = [VInst firstArg, VInst secondArg],
                  parent = bb,
                  getType = (case getInst s firstArg of None \<Rightarrow> VoidTy | Some a \<Rightarrow> getType a)\<rparr>
      in (new, s\<lparr>insts := insertAfter insertPos (new, inst) (insts s),
                 useOrder := (new, 1) # (new, 0) # useOrder s\<rparr>))"

text \<open>
  The first loop of \<open>optimize\<close>, over the use list of the phi. The iterator is advanced
  before the user's operand is changed, so the loop visits the uses the phi had on
  entry, in order: the recursion runs over that list. A user that is not an instruction
  and a user outside the region are skipped. (The \<open>errs()\<close> output is left out.)
\<close>

fun remapPhiUsers :: "VectorizationInfo \<Rightarrow> Value \<Rightarrow> (nat \<times> nat) list \<Rightarrow> IR \<Rightarrow> IR" where
  "remapPhiUsers vecInfo neutral [] s = s"
| "remapPhiUsers vecInfo neutral ((user, opIdx) # itUse) s =
     (case getInst s user of
        None \<Rightarrow> remapPhiUsers vecInfo neutral itUse s
      | Some userInst \<Rightarrow>
          if \<not> inRegion vecInfo userInst then remapPhiUsers vecInfo neutral itUse s
          else remapPhiUsers vecInfo neutral itUse (setOperand s user opIdx neutral))"

text \<open>
  The second loop of \<open>optimize\<close>, over the use list of the latch instruction. A user
  inside the region is skipped; after a rewrite the iterator is set back to the
  beginning of the (changed) use list. \<open>cast<Instruction>\<close> of a user that is not an
  instruction is the error \<open>UserNotAnInstruction\<close>. Nothing bounds the number of
  iterations syntactically, so the loop is a partial function: \<open>None\<close> is its not
  returning.
\<close>

partial_function (option) redirectLatchUsers ::
  "VectorizationInfo \<Rightarrow> nat \<Rightarrow> Value \<Rightarrow> (nat \<times> nat) list \<Rightarrow> IR \<Rightarrow> (error + IR) option"
where
  "redirectLatchUsers vecInfo latchInst latchUpdate itUse s =
     (case itUse of
        [] \<Rightarrow> Some (Inr s)
      | (user, opIdx) # itNext \<Rightarrow>
          (case getInst s user of
             None \<Rightarrow> Some (Inl UserNotAnInstruction)
           | Some inst \<Rightarrow>
               if inRegion vecInfo inst then redirectLatchUsers vecInfo latchInst latchUpdate itNext s
               else (let s' = setOperand s user opIdx latchUpdate
                     in redirectLatchUsers vecInfo latchInst latchUpdate (uses s' (VInst latchInst)) s')))"

text \<open>
  \<open>dyn_cast<Instruction>\<close> gives the instruction behind a value, if it is one. The
  latch index is \<open>0\<close> when the first incoming value is an instruction inside the region,
  and \<open>1\<close> otherwise.
\<close>

definition dyn_cast_Instruction :: "IR \<Rightarrow> Value \<Rightarrow> Instruction option" where
  "dyn_cast_Instruction s v = (case v of VInst i \<Rightarrow> getInst s i | _ \<Rightarrow> None)"

definition latchIndex :: "VectorizationInfo \<Rightarrow> IR \<Rightarrow> Value \<Rightarrow> nat" where
  "latchIndex vecInfo s in0 =
     (case dyn_cast_Instruction s in0 of
        None \<Rightarrow> 1
      | Some inAtZero \<Rightarrow> if inRegion vecInfo inAtZero then 0 else 1)"

text \<open>
  \<open>ReductionOptimization::optimize\<close>. It returns whether it changed the reduction,
  with the updated vectorization info and function. Reading an operand that the phi
  does not have is the error \<open>OperandOutOfRange\<close>; the assertion that the latch value
  is an instruction is the error \<open>LatchNotAnInstruction\<close>.
\<close>

definition optimize ::
  "VectorizationInfo \<Rightarrow> IR \<Rightarrow> nat \<Rightarrow> Reduction \<Rightarrow> (error + bool \<times> VectorizationInfo \<times> IR) option"
where
  "optimize vecInfo s phi red =
     (let phiShape = getVectorShape vecInfo (VInst phi) in
      if getNumUses s (VInst phi) = 1 then Some (Inr (False, vecInfo, s))
      else
        case getInst s phi of
          None \<Rightarrow> Some (Inl NoSuchInstruction)
        | Some phiInst \<Rightarrow>
        let neutral = VConst (GetNeutralElement (kind red) (getType phiInst)) in
        case getOperand s phi 0 of
          None \<Rightarrow> Some (Inl OperandOutOfRange)
        | Some in0 \<Rightarrow>
        let latchIdx = latchIndex vecInfo s in0 in
        case getOperand s phi latchIdx of
          None \<Rightarrow> Some (Inl OperandOutOfRange)
        | Some (VConst c) \<Rightarrow> Some (Inl LatchNotAnInstruction)
        | Some (VArg a) \<Rightarrow> Some (Inl LatchNotAnInstruction)
        | Some (VInst latchInst) \<Rightarrow>
        case getInst s latchInst of
          None \<Rightarrow> Some (Inl LatchNotAnInstruction)
        | Some latch \<Rightarrow>
        let s1 = remapPhiUsers vecInfo neutral (uses s (VInst phi)) s;
            (latchUpdate, s2) = CreateReductInst s1 (parent latch, latchInst) (kind red) phi latchInst;
            vecInfo' = setVectorShape vecInfo (VInst latchUpdate) phiShape
        in
        case redirectLatchUsers vecInfo' latchInst (VInst latchUpdate) (uses s2 (VInst latchInst)) s2 of
          None \<Rightarrow> None
        | Some (Inl e) \<Rightarrow> Some (Inl e)
        | Some (Inr s3) \<Rightarrow> Some (Inr (True, vecInfo', setOperand s3 phi latchIdx (VInst latchUpdate))))"

text \<open>
  \<open>ReductionOptimization::run\<close>. Modelled from the spec: the reduction analysis is not
  among the sources; \<open>reda.getReductionInfo\<close> is a lookup, a function from phi nodes to
  reductions. The loop \<open>for (auto & inst : vecInfo.getEntry())\<close> walks the entry block's
  instruction list while \<open>optimize\<close> changes the function: the iterator stands on an
  instruction, and stepping it gives the instruction that follows in the block as it
  is then. To state what \<open>run\<close> does in which order, the model keeps a log of its calls
  to the reduction analysis and to \<open>optimize\<close> and of the final report (the number
  written by \<open>Report()\<close>).
\<close>

datatype RunEvent = GetReductionInfo nat | Optimize nat bool | Report nat

definition begin_inst :: "IR \<Rightarrow> nat \<Rightarrow> nat option" where
  "begin_inst s bb = (case blockInsts s bb of [] \<Rightarrow> None | inst # _ \<Rightarrow> Some inst)"

definition next_inst :: "IR \<Rightarrow> nat \<Rightarrow> nat \<Rightarrow> nat option" where
  "next_inst s bb inst =
     (case dropWhile (\<lambda>i. i \<noteq> inst) (blockInsts s bb) of
        _ # following # _ \<Rightarrow> Some following
      | _ \<Rightarrow> None)"

partial_function (option) runLoop ::
  "(nat \<Rightarrow> Reduction option) \<Rightarrow> nat option \<Rightarrow> nat \<Rightarrow> RunEvent list \<Rightarrow> VectorizationInfo \<Rightarrow> IR
     \<Rightarrow> (error + nat \<times> RunEvent list \<times> VectorizationInfo \<times> IR) option"
where
  "runLoop reda it numOptimizedReductions log vecInfo s =
     (case it of
        None \<Rightarrow> Some (Inr (numOptimizedReductions, log, vecInfo, s))
      | Some inst \<Rightarrow>
          (case getInst s inst of
             None \<Rightarrow> Some (Inl NoSuchInstruction)
           | Some i \<Rightarrow>
               if instKind i \<noteq> PHINode then Some (Inr (numOptimizedReductions, log, vecInfo, s))
               else
                 (case reda inst of
                    None \<Rightarrow>
                      runLoop reda (next_inst s (entry vecInfo) inst) numOptimizedReductions
                        (log @ [GetReductionInfo inst]) vecInfo s
                  | Some redInfo \<Rightarrow>
                      (case optimize vecInfo s inst redInfo of
                         None \<Rightarrow> None
                       | Some (Inl e) \<Rightarrow> Some (Inl e)
                       | Some (Inr (changedRed, vecInfo', s')) \<Rightarrow>
                           runLoop reda (next_inst s' (entry vecInfo') inst)
                             (if changedRed then Suc numOptimizedReductions else numOptimizedReductions)
                             (log @ [GetReductionInfo inst, Optimize inst changedRed]) vecInfo' s'))))"

definition run ::
  "(nat \<Rightarrow> Reduction option) \<Rightarrow> VectorizationInfo \<Rightarrow> IR
     \<Rightarrow> (error + bool \<times> RunEvent list \<times> VectorizationInfo \<times> IR) option"
where
  "run reda vecInfo s =
     (if region vecInfo = None then Some (Inr (False, [], vecInfo, s))
      else
        case runLoop reda (begin_inst s (entry vecInfo)) 0 [] vecInfo s of
          None \<Rightarrow> None
        | Some (Inl e) \<Rightarrow> Some (Inl e)
        | Some (Inr (numOptimizedReductions, log, vecInfo', s')) \<Rightarrow>
            Some (Inr (numOptimizedReductions \<noteq> 0, log @ [Report numOptimizedReductions], vecInfo', s')))"

subsection \<open>The value of a reduction\<close>












section \<open>Properties of native/Utils.cpp\<close>

subsection \<open>isSupportedOperation\<close>

lemma isBinaryOp_iff: "isBinaryOp oc \<longleftrightarrow> (\<exists>b. oc = BinaryOp b)"
proof (cases oc)
  case (TermOp t)
  then show ?thesis
    by (cases t) (simp_all add: isBinaryOp_def BinaryOpsBegin_def BinaryOpsEnd_def)
next
  case (BinaryOp b)
  then show ?thesis
    by (cases b) (simp_all add: isBinaryOp_def BinaryOpsBegin_def BinaryOpsEnd_def)
next
  case (MemoryOp m)
  then show ?thesis
    by (cases m) (simp_all add: isBinaryOp_def BinaryOpsBegin_def BinaryOpsEnd_def)
next
  case (CastOp c)
  then show ?thesis
    by (cases c) (simp_all add: isBinaryOp_def BinaryOpsBegin_def BinaryOpsEnd_def)
next
  case (FuncletPadOp f)
  then show ?thesis
    by (cases f) (simp_all add: isBinaryOp_def BinaryOpsBegin_def BinaryOpsEnd_def)
next
  case (OtherOp x)
  then show ?thesis
    by (cases x) (simp_all add: isBinaryOp_def BinaryOpsBegin_def BinaryOpsEnd_def)
qed

lemma isCast_iff: "isCast oc \<longleftrightarrow> (\<exists>c. oc = CastOp c)"
proof (cases oc)
  case (TermOp t)
  then show ?thesis
    by (cases t) (simp_all add: isCast_def CastOpsBegin_def CastOpsEnd_def)
next
  case (BinaryOp b)
  then show ?thesis
    by (cases b) (simp_all add: isCast_def CastOpsBegin_def CastOpsEnd_def)
next
  case (MemoryOp m)
  then show ?thesis
    by (cases m) (simp_all add: isCast_def CastOpsBegin_def CastOpsEnd_def)
next
  case (CastOp c)
  then show ?thesis
    by (cases c) (simp_all add: isCast_def CastOpsBegin_def CastOpsEnd_def)
next
  case (FuncletPadOp f)
  then show ?thesis
    by (cases f) (simp_all add: isCast_def CastOpsBegin_def CastOpsEnd_def)
next
  case (OtherOp x)
  then show ?thesis
    by (cases x) (simp_all add: isCast_def CastOpsBegin_def CastOpsEnd_def)
qed

lemma unsupported_call:
  "opcode inst = OtherOp Call \<Longrightarrow> isStructTy (calleeRetTy inst) \<or> isVectorTy (calleeRetTy inst)
   \<Longrightarrow> \<not> isSupportedOperation inst"
  by (simp add: isSupportedOperation_def)

lemma unsupported_element_op:
  assumes "opcode inst \<in> OtherOp ` {ExtractElement, ExtractValue, InsertElement, InsertValue, ShuffleVector}"
  shows "\<not> isSupportedOperation inst"
  using assms by (auto simp: isSupportedOperation_def isBinaryOp_iff isCast_iff)

lemma supported_basic:
  assumes "isBinaryOp (opcode inst) \<or> opcode inst = MemoryOp Load \<or> opcode inst = MemoryOp Store \<or>
           isCast (opcode inst) \<or> opcode inst = TermOp Ret"
  shows "isSupportedOperation inst"
  using assms by (auto simp: isSupportedOperation_def isBinaryOp_iff isCast_iff)

text \<open>
  Claim C7. For every instruction, \<open>isSupportedOperation\<close> is false for a call whose
  return type is a struct or a vector type, and false for an extract-element,
  extract-value, insert-element, insert-value or shuffle-vector instruction; it is true
  for a binary operation, a load, a store, a cast and a return.
\<close>

theorem isSupportedOperation_classes:
  "(opcode inst = OtherOp Call \<and> (isStructTy (calleeRetTy inst) \<or> isVectorTy (calleeRetTy inst))
      \<longrightarrow> \<not> isSupportedOperation inst) \<and>
   (opcode inst \<in> {OtherOp ExtractElement, OtherOp ExtractValue, OtherOp InsertElement,
                    OtherOp InsertValue, OtherOp ShuffleVector}
      \<longrightarrow> \<not> isSupportedOperation inst) \<and>
   (isBinaryOp (opcode inst) \<or> opcode inst = MemoryOp Load \<or> opcode inst = MemoryOp Store \<or>
    isCast (opcode inst) \<or> opcode inst = TermOp Ret
      \<longrightarrow> isSupportedOperation inst)"
proof (intro conjI impI)
  assume "opcode inst = OtherOp Call \<and> (isStructTy (calleeRetTy inst) \<or> isVectorTy (calleeRetTy inst))"
  then show "\<not> isSupportedOperation inst"
    using unsupported_call by blast
next
  assume "opcode inst \<in> {OtherOp ExtractElement, OtherOp ExtractValue, OtherOp InsertElement,
                          OtherOp InsertValue, OtherOp ShuffleVector}"
  then show "\<not> isSupportedOperation inst"
    by (intro unsupported_element_op) auto
next
  assume "isBinaryOp (opcode inst) \<or> opcode inst = MemoryOp Load \<or> opcode inst = MemoryOp Store \<or>
          isCast (opcode inst) \<or> opcode inst = TermOp Ret"
  then show "isSupportedOperation inst"
    by (rule supported_basic)
qed

theorem isSupportedOperation_classes_witness:
  "\<not> isSupportedOperation \<lparr>opcode = OtherOp Call, calleeRetTy = StructTy [IntegerTy 32]\<rparr> \<and>
   \<not> isSupportedOperation \<lparr>opcode = OtherOp Call, calleeRetTy = VectorTy FloatTy 4\<rparr> \<and>
   \<not> isSupportedOperation \<lparr>opcode = OtherOp ShuffleVector, calleeRetTy = VoidTy\<rparr> \<and>
   \<not> isSupportedOperation \<lparr>opcode = OtherOp ExtractValue, calleeRetTy = VoidTy\<rparr> \<and>
   isSupportedOperation \<lparr>opcode = BinaryOp FAdd, calleeRetTy = VoidTy\<rparr> \<and>
   isSupportedOperation \<lparr>opcode = CastOp BitCast, calleeRetTy = VoidTy\<rparr> \<and>
   isSupportedOperation \<lparr>opcode = MemoryOp Store, calleeRetTy = VoidTy\<rparr> \<and>
   isSupportedOperation \<lparr>opcode = TermOp Ret, calleeRetTy = VoidTy\<rparr>"
  using isSupportedOperation_classes [of "\<lparr>opcode = OtherOp Call, calleeRetTy = StructTy [IntegerTy 32]\<rparr>"]
        isSupportedOperation_classes [of "\<lparr>opcode = OtherOp Call, calleeRetTy = VectorTy FloatTy 4\<rparr>"]
        isSupportedOperation_classes [of "\<lparr>opcode = OtherOp ShuffleVector, calleeRetTy = VoidTy\<rparr>"]
        isSupportedOperation_classes [of "\<lparr>opcode = OtherOp ExtractValue, calleeRetTy = VoidTy\<rparr>"]
        isSupportedOperation_classes [of "\<lparr>opcode = BinaryOp FAdd, calleeRetTy = VoidTy\<rparr>"]
        isSupportedOperation_classes [of "\<lparr>opcode = CastOp BitCast, calleeRetTy = VoidTy\<rparr>"]
        isSupportedOperation_classes [of "\<lparr>opcode = MemoryOp Store, calleeRetTy = VoidTy\<rparr>"]
        isSupportedOperation_classes [of "\<lparr>opcode = TermOp Ret, calleeRetTy = VoidTy\<rparr>"]
  by (simp add: isBinaryOp_def isCast_def BinaryOpsBegin_def BinaryOpsEnd_def
      CastOpsBegin_def CastOpsEnd_def)

subsection \<open>getConstantVectorPadded\<close>

lemma laneConstant_scalar:
  "isFloatingPointTy ty \<or> isIntegerTy ty \<Longrightarrow>
   laneConstant ty v =
     Inr (if isFloatingPointTy ty then ConstantFP ty (convert ty (unat v))
          else ConstantInt ty (unat v mod 2 ^ getIntegerBitWidth ty))"
  by (cases ty) (simp_all add: laneConstant_def ConstantFP_get_def ConstantInt_get_def)

lemma laneConstant_splat:
  "isIntegerTy t \<Longrightarrow>
   laneConstant (VectorTy t n) v =
     Inr (ConstantVector (replicate n (ConstantInt t (unat v mod 2 ^ getIntegerBitWidth t))))"
  by (cases t) (simp_all add: laneConstant_def ConstantInt_get_def)

lemma laneConstant_refused:
  "\<not> (isFloatingPointTy ty \<or> isIntegerTy (getScalarType ty)) \<Longrightarrow>
   laneConstant ty v = Inl NotAnIntegerType"
  by (cases ty; cases "getScalarType ty") (simp_all add: laneConstant_def ConstantInt_get_def)

text \<open>The constant of a lane, where one can be made.\<close>

definition laneOf :: "Type \<Rightarrow> 32 word \<Rightarrow> Constant" where
  "laneOf ty v = (case laneConstant ty v of Inr c \<Rightarrow> c | Inl e \<Rightarrow> UndefValue ty)"

lemma laneConstant_total:
  assumes "isFloatingPointTy ty \<or> isIntegerTy (getScalarType ty)"
  shows "laneConstant ty v = Inr (laneOf ty v)"
proof (cases "isVectorTy ty")
  case True
  then obtain t n where ty: "ty = VectorTy t n" by (cases ty) auto
  then have "isIntegerTy t" using assms by simp
  then show ?thesis unfolding ty by (simp add: laneOf_def laneConstant_splat)
next
  case False
  then have "getScalarType ty = ty" by (cases ty) auto
  then have "isFloatingPointTy ty \<or> isIntegerTy ty" using assms by simp
  then show ?thesis by (simp add: laneOf_def laneConstant_scalar)
qed

lemma fillValues_ok:
  "(\<And>v. laneConstant ty v = Inr (L v)) \<Longrightarrow> i \<le> length vals \<Longrightarrow> length vals \<le> length constants \<Longrightarrow>
   fillValues ty vals i constants =
     Inr (length vals,
          take i constants @ map (\<lambda>v. Some (L v)) (drop i vals)
            @ drop (length vals) constants)"
proof (induction ty vals i constants rule: fillValues.induct)
  case (1 ty vals i constants)
  note L = "1.prems"(1)
  show ?case
  proof (cases "i < length vals")
    case True
    have step: "take (Suc i) (constants[i := Some (L (vals ! i))])
                  = take i constants @ [Some (L (vals ! i))]"
      using True "1.prems" by (simp add: take_Suc_conv_app_nth)
    have dr: "drop i vals = vals ! i # drop (Suc i) vals"
      using True by (simp add: Cons_nth_drop_Suc)
    have lt: "i < length constants" using True "1.prems" by simp
    have "fillValues ty vals i constants =
            fillValues ty vals (Suc i) (constants[i := Some (L (vals ! i))])"
      using True lt by (subst fillValues.simps) (simp add: L)
    also have "\<dots> = Inr (length vals,
          take (Suc i) (constants[i := Some (L (vals ! i))])
            @ map (\<lambda>v. Some (L v)) (drop (Suc i) vals)
            @ drop (length vals) (constants[i := Some (L (vals ! i))]))"
      using True "1.prems"(3) by (intro "1.IH" [OF True L lt L]) simp_all
    also have "\<dots> = Inr (length vals,
          take i constants @ map (\<lambda>v. Some (L v)) (drop i vals)
            @ drop (length vals) constants)"
      using True by (simp add: step dr)
    finally show ?thesis .
  next
    case False
    with "1.prems" have "i = length vals" by simp
    then show ?thesis by (subst fillValues.simps) simp
  qed
qed

lemma fillValues_overflow:
  "(\<And>v. laneConstant ty v = Inr (L v)) \<Longrightarrow> i \<le> length constants \<Longrightarrow> length constants < length vals \<Longrightarrow>
   fillValues ty vals i constants = Inl IndexOutOfBounds"
proof (induction ty vals i constants rule: fillValues.induct)
  case (1 ty vals i constants)
  note L = "1.prems"(1)
  show ?case
  proof (cases "i < length constants")
    case True
    then have iv: "i < length vals" using "1.prems" by simp
    have "fillValues ty vals i constants =
            fillValues ty vals (Suc i) (constants[i := Some (L (vals ! i))])"
      using True iv by (subst fillValues.simps) (simp add: L)
    also have "\<dots> = Inl IndexOutOfBounds"
      using True "1.prems"(3) by (intro "1.IH" [OF iv L True L]) simp_all
    finally show ?thesis .
  next
    case False
    then show ?thesis using "1.prems" by (subst fillValues.simps) (simp add: L)
  qed
qed

lemma fillPadding_ok:
  "i \<le> width \<Longrightarrow> width \<le> length constants \<Longrightarrow>
   fillPadding width padding i constants =
     Inr (take i constants @ replicate (width - i) (Some padding) @ drop width constants)"
proof (induction width padding i constants rule: fillPadding.induct)
  case (1 width padding i constants)
  show ?case
  proof (cases "i < width")
    case True
    have step: "take (Suc i) (constants[i := Some padding]) = take i constants @ [Some padding]"
      using True "1.prems" by (simp add: take_Suc_conv_app_nth)
    have rp: "replicate (width - i) (Some padding)
                = Some padding # replicate (width - Suc i) (Some padding)"
      using True by (simp add: Suc_diff_Suc flip: replicate_Suc)
    have "fillPadding width padding i constants =
            fillPadding width padding (Suc i) (constants[i := Some padding])"
      using True "1.prems" by (subst fillPadding.simps) simp
    also have "\<dots> = Inr (take (Suc i) (constants[i := Some padding])
            @ replicate (width - Suc i) (Some padding)
            @ drop width (constants[i := Some padding]))"
      using True "1.prems" by (intro "1.IH") simp_all
    also have "\<dots> = Inr (take i constants @ replicate (width - i) (Some padding)
            @ drop width constants)"
      using True by (simp add: step rp del: fillPadding.simps replicate_Suc)
    finally show ?thesis .
  next
    case False
    with "1.prems" have "i = width" by simp
    then show ?thesis by (subst fillPadding.simps) simp
  qed
qed

lemma getConstantVectorPadded_refused:
  assumes "\<not> (isFloatingPointTy ty \<or> isIntegerTy (getScalarType ty))"
  shows "getConstantVectorPadded width ty vals padWithZero = Inl NotAnIntegerType"
proof (cases vals)
  case Nil
  have "fillValues ty [] 0 (replicate (unat width) None) = Inr (0, replicate (unat width) None)"
    by (subst fillValues.simps) simp
  then show ?thesis
    using Nil laneConstant_refused [OF assms] by (simp add: getConstantVectorPadded_def)
next
  case (Cons v vs)
  have "fillValues ty (v # vs) 0 (replicate (unat width) None) = Inl NotAnIntegerType"
    using laneConstant_refused [OF assms] by (subst fillValues.simps) simp
  then show ?thesis
    using Cons by (simp add: getConstantVectorPadded_def)
qed

lemma getConstantVectorPadded_overflow:
  assumes "isFloatingPointTy ty \<or> isIntegerTy (getScalarType ty)" and "unat width < length vals"
  shows "getConstantVectorPadded width ty vals padWithZero = Inl IndexOutOfBounds"
proof -
  have L: "\<And>v. laneConstant ty v = Inr (laneOf ty v)"
    by (rule laneConstant_total [OF assms(1)])
  have "fillValues ty vals 0 (replicate (unat width) None) = Inl IndexOutOfBounds"
    using assms(2) by (intro fillValues_overflow [OF L]) simp_all
  then show ?thesis
    by (simp add: getConstantVectorPadded_def)
qed

lemma getConstantVectorPadded_filled:
  assumes L: "\<And>v. laneConstant ty v = Inr (L v)" and "length vals \<le> unat width"
  shows "getConstantVectorPadded width ty vals padWithZero =
           ConstantVector_get (map (\<lambda>v. Some (L v)) vals
                  @ replicate (unat width - length vals)
                      (Some (if padWithZero then L 0 else UndefValue ty)))"
proof -
  define padding where "padding = (if padWithZero then L 0 else UndefValue ty)"
  define filled where
    "filled = map (\<lambda>v. Some (L v)) vals @ replicate (unat width - length vals) None"
  define final where
    "final = map (\<lambda>v. Some (L v)) vals @ replicate (unat width - length vals) (Some padding)"
  have len: "length filled = unat width"
    using assms by (simp add: filled_def)
  have "fillValues ty vals 0 (replicate (unat width) None)
          = Inr (length vals, take 0 (replicate (unat width) None) @ map (\<lambda>v. Some (L v)) (drop 0 vals)
                   @ drop (length vals) (replicate (unat width) None))"
    using assms(2) by (intro fillValues_ok [OF L]) simp_all
  then have fv: "fillValues ty vals 0 (replicate (unat width) None) = Inr (length vals, filled)"
    by (simp add: filled_def)
  have "fillPadding (unat width) padding (length vals) filled
          = Inr (take (length vals) filled
                   @ replicate (unat width - length vals) (Some padding)
                   @ drop (unat width) filled)"
    using assms len by (intro fillPadding_ok) simp_all
  then have fp: "fillPadding (unat width) padding (length vals) filled = Inr final"
    using len by (simp add: filled_def final_def)
  show ?thesis
    using fv fp by (simp add: getConstantVectorPadded_def L final_def flip: padding_def)
qed

lemma ConstantVector_get_lanes:
  assumes "cs \<noteq> []" and "isValidElementType (Constant_getType (hd cs))"
  shows "ConstantVector_get (map Some cs) = Inr (ConstantVector cs)"
  using assms by (cases cs) (auto simp: ConstantVector_get_def comp_def)

lemma ConstantVector_get_invalid:
  assumes "cs \<noteq> []" and "\<not> isValidElementType (Constant_getType (hd cs))"
  shows "ConstantVector_get (map Some cs) = Inl InvalidElementType"
  using assms by (cases cs) (auto simp: ConstantVector_get_def)

lemma less_two_power_bitLength: "n < 2 ^ bitLength n"
proof (induction n rule: bitLength.induct)
  case (1 n)
  show ?case
  proof (cases "n = 0")
    case True
    then show ?thesis by (simp add: bitLength.simps)
  next
    case False
    then have "n div 2 < 2 ^ bitLength (n div 2)" using 1 by simp
    then have "n < 2 * 2 ^ bitLength (n div 2)" by linarith
    then show ?thesis using False by (simp add: bitLength.simps [of n])
  qed
qed

lemma convert_exact:
  assumes "isFloatingPointTy ty" "bitLength v \<le> fltPrecision ty"
  shows "convert ty v = FiniteValue v"
proof -
  have "fltPrecision ty \<le> Suc (fltMaxExponent ty)"
    using assms(1) by (cases ty) simp_all
  then have "(2::nat) ^ bitLength v \<le> 2 ^ Suc (fltMaxExponent ty)"
    using assms(2) by (intro power_increasing) simp_all
  then have "v < 2 ^ Suc (fltMaxExponent ty)"
    using less_two_power_bitLength [of v] by linarith
  then show ?thesis
    using assms(2) by (simp add: convert_def roundNearestEven_def)
qed

lemma bitLength_0: "bitLength 0 = 0"
  by (simp add: bitLength.simps)

lemma lane_scalar:
  "isFloatingPointTy ty \<or> isIntegerTy ty \<Longrightarrow>
   laneOf ty v = (if isFloatingPointTy ty then ConstantFP ty (convert ty (unat v))
                else ConstantInt ty (unat v mod 2 ^ getIntegerBitWidth ty))"
  by (simp add: laneOf_def laneConstant_scalar)

lemma lane_fits:
  assumes "isFloatingPointTy ty \<or> isIntegerTy ty" and "fits ty (unat v)"
  shows "laneOf ty v = exact ty (unat v)"
proof (cases "isFloatingPointTy ty")
  case True
  then have "bitLength (unat v) \<le> fltPrecision ty"
    using assms(2) by (cases ty) (simp_all add: fits_def)
  then show ?thesis
    using True by (simp add: lane_scalar exact_def convert_exact)
next
  case False
  then obtain w where ty: "ty = IntegerTy w" using assms(1) by (cases ty) auto
  then show ?thesis
    using assms(2) by (simp add: lane_scalar exact_def fits_def)
qed

lemma lane_zero:
  assumes "isFloatingPointTy ty \<or> isIntegerTy ty"
  shows "laneOf ty 0 = exact ty 0"
proof -
  have "fits ty (unat (0 :: 32 word))"
    using assms by (cases ty) (simp_all add: fits_def bitLength_0)
  from lane_fits [OF assms this] show ?thesis by simp
qed

lemma lane_type:
  "isFloatingPointTy ty \<or> isIntegerTy ty \<Longrightarrow> Constant_getType (laneOf ty v) = ty"
  by (simp add: lane_scalar)

lemma lane_splat_type:
  "isIntegerTy t \<Longrightarrow> isVectorTy (Constant_getType (laneOf (VectorTy t n) v))"
  by (simp add: laneOf_def laneConstant_splat)

lemma ConstantVector_get_in_bounds: "ConstantVector_get V \<noteq> Inl IndexOutOfBounds"
  by (auto simp: ConstantVector_get_def split: list.splits option.splits)


text \<open>
  Claim C9. For an element type of which laneOf constants can be made (a floating-point
  type, or a type whose scalar type is an integer type), a write into the buffer of
  \<open>width\<close> constants is out of bounds exactly when \<open>values.size() > width\<close>; for any
  other type \<open>ConstantInt::get\<close> fails before a write. Under \<open>values.size() \<le> width\<close>,
  for a width other than \<open>0\<close> and an integer or floating-point element type, the result
  is a vector of \<open>width\<close> elements: element \<open>i\<close> is \<open>values[i]\<close> converted to the
  element type (cut to the bit width of an integer type, rounded to the format of a
  floating-point type), hence \<open>values[i]\<close> itself when it fits the type, for every
  \<open>i < values.size()\<close>; each remaining element is the zero constant when \<open>padWithZero\<close>
  is set and undef otherwise. At width \<open>0\<close> the empty buffer is refused by
  \<open>ConstantVector::get\<close>, and so is a buffer of vector constants.
\<close>

theorem getConstantVectorPadded_in_bounds:
  "(isFloatingPointTy ty \<or> isIntegerTy (getScalarType ty) \<longrightarrow>
      (getConstantVectorPadded width ty vals padWithZero = Inl IndexOutOfBounds
         \<longleftrightarrow> \<not> length vals \<le> unat width)) \<and>
   (\<not> (isFloatingPointTy ty \<or> isIntegerTy (getScalarType ty)) \<longrightarrow>
      getConstantVectorPadded width ty vals padWithZero = Inl NotAnIntegerType) \<and>
   (length vals \<le> unat width \<and> 0 < unat width \<and> (isFloatingPointTy ty \<or> isIntegerTy ty) \<longrightarrow>
      (\<exists>cs. getConstantVectorPadded width ty vals padWithZero = Inr (ConstantVector cs) \<and>
            length cs = unat width \<and>
            (\<forall>i < length vals.
               cs ! i = (if isFloatingPointTy ty then ConstantFP ty (convert ty (unat (vals ! i)))
                         else ConstantInt ty (unat (vals ! i) mod 2 ^ getIntegerBitWidth ty)) \<and>
               (fits ty (unat (vals ! i)) \<longrightarrow> cs ! i = exact ty (unat (vals ! i)))) \<and>
            (\<forall>i. length vals \<le> i \<and> i < unat width \<longrightarrow>
                 cs ! i = (if padWithZero then exact ty 0 else UndefValue ty)))) \<and>
   (length vals \<le> unat width \<and> unat width = 0 \<and>
      (isFloatingPointTy ty \<or> isIntegerTy (getScalarType ty)) \<longrightarrow>
      getConstantVectorPadded width ty vals padWithZero = Inl EmptyVector) \<and>
   (length vals \<le> unat width \<and> 0 < unat width \<and> isVectorTy ty \<and> isIntegerTy (getScalarType ty) \<longrightarrow>
      getConstantVectorPadded width ty vals padWithZero = Inl InvalidElementType)"
proof (intro conjI impI)
  assume has: "isFloatingPointTy ty \<or> isIntegerTy (getScalarType ty)"
  show "getConstantVectorPadded width ty vals padWithZero = Inl IndexOutOfBounds
          \<longleftrightarrow> \<not> length vals \<le> unat width"
  proof (cases "length vals \<le> unat width")
    case True
    then show ?thesis
      using getConstantVectorPadded_filled [OF laneConstant_total [OF has] True]
      by (simp add: ConstantVector_get_in_bounds)
  next
    case False
    then show ?thesis using has by (simp add: getConstantVectorPadded_overflow)
  qed
next
  assume "\<not> (isFloatingPointTy ty \<or> isIntegerTy (getScalarType ty))"
  then show "getConstantVectorPadded width ty vals padWithZero = Inl NotAnIntegerType"
    by (rule getConstantVectorPadded_refused)
next
  assume a: "length vals \<le> unat width \<and> 0 < unat width \<and> (isFloatingPointTy ty \<or> isIntegerTy ty)"
  then have le: "length vals \<le> unat width" and pos: "0 < unat width"
    and sc: "isFloatingPointTy ty \<or> isIntegerTy ty" by blast+
  have has: "isFloatingPointTy ty \<or> isIntegerTy (getScalarType ty)"
    using sc by (cases ty) auto
  let ?pad = "if padWithZero then laneOf ty 0 else UndefValue ty"
  let ?cs = "map (laneOf ty) vals @ replicate (unat width - length vals) ?pad"
  have ne: "?cs \<noteq> []" using le pos by auto
  have "Constant_getType (hd ?cs) = ty"
    using le pos sc by (cases vals) (auto simp: lane_type hd_append)
  then have valid: "isValidElementType (Constant_getType (hd ?cs))"
    using sc by (auto simp: isValidElementType_def)
  have "getConstantVectorPadded width ty vals padWithZero = ConstantVector_get (map Some ?cs)"
    using getConstantVectorPadded_filled [OF laneConstant_total [OF has] le, of padWithZero]
    by (simp add: comp_def)
  then have "getConstantVectorPadded width ty vals padWithZero = Inr (ConstantVector ?cs)"
    using ConstantVector_get_lanes [OF ne valid] by simp
  moreover have "length ?cs = unat width"
    using le by simp
  moreover have "\<forall>i < length vals.
       ?cs ! i = (if isFloatingPointTy ty then ConstantFP ty (convert ty (unat (vals ! i)))
                  else ConstantInt ty (unat (vals ! i) mod 2 ^ getIntegerBitWidth ty)) \<and>
       (fits ty (unat (vals ! i)) \<longrightarrow> ?cs ! i = exact ty (unat (vals ! i)))"
    using lane_scalar [OF sc] lane_fits [OF sc] by (simp add: nth_append)
  moreover have "\<forall>i. length vals \<le> i \<and> i < unat width \<longrightarrow>
                   ?cs ! i = (if padWithZero then exact ty 0 else UndefValue ty)"
    using lane_zero [OF sc] by (auto simp: nth_append)
  ultimately show "\<exists>cs. getConstantVectorPadded width ty vals padWithZero = Inr (ConstantVector cs) \<and>
            length cs = unat width \<and>
            (\<forall>i < length vals.
               cs ! i = (if isFloatingPointTy ty then ConstantFP ty (convert ty (unat (vals ! i)))
                         else ConstantInt ty (unat (vals ! i) mod 2 ^ getIntegerBitWidth ty)) \<and>
               (fits ty (unat (vals ! i)) \<longrightarrow> cs ! i = exact ty (unat (vals ! i)))) \<and>
            (\<forall>i. length vals \<le> i \<and> i < unat width \<longrightarrow>
                 cs ! i = (if padWithZero then exact ty 0 else UndefValue ty))"
    by blast
next
  assume a: "length vals \<le> unat width \<and> unat width = 0 \<and>
      (isFloatingPointTy ty \<or> isIntegerTy (getScalarType ty))"
  then have le: "length vals \<le> unat width" and z: "unat width = 0"
    and has: "isFloatingPointTy ty \<or> isIntegerTy (getScalarType ty)" by blast+
  show "getConstantVectorPadded width ty vals padWithZero = Inl EmptyVector"
    using getConstantVectorPadded_filled [OF laneConstant_total [OF has] le, of padWithZero] le z
    by (simp add: ConstantVector_get_def)
next
  assume a: "length vals \<le> unat width \<and> 0 < unat width \<and> isVectorTy ty \<and> isIntegerTy (getScalarType ty)"
  then have le: "length vals \<le> unat width" and pos: "0 < unat width" by blast+
  from a obtain t n where ty: "ty = VectorTy t n" and t: "isIntegerTy t"
    by (cases ty) auto
  have has: "isFloatingPointTy ty \<or> isIntegerTy (getScalarType ty)"
    using ty t by simp
  let ?pad = "if padWithZero then laneOf ty 0 else UndefValue ty"
  let ?cs = "map (laneOf ty) vals @ replicate (unat width - length vals) ?pad"
  have ne: "?cs \<noteq> []" using le pos by auto
  have "isVectorTy (Constant_getType (hd ?cs))"
    using le pos t unfolding ty by (cases vals) (auto simp: lane_splat_type hd_append)
  then have invalid: "\<not> isValidElementType (Constant_getType (hd ?cs))"
    by (cases "Constant_getType (hd ?cs)") (simp_all add: isValidElementType_def)
  have "getConstantVectorPadded width ty vals padWithZero = ConstantVector_get (map Some ?cs)"
    using getConstantVectorPadded_filled [OF laneConstant_total [OF has] le, of padWithZero]
    by (simp add: comp_def)
  then show "getConstantVectorPadded width ty vals padWithZero = Inl InvalidElementType"
    using ConstantVector_get_invalid [OF ne invalid] by simp
qed

lemma bitLength_numeral [simp]:
  "bitLength (numeral k) = Suc (bitLength (numeral k div 2))"
  by (subst bitLength.simps) simp

lemma bitLength_0' [simp]: "bitLength 0 = 0" "bitLength (Suc 0) = Suc 0"
  by (simp_all add: bitLength.simps)

text \<open>
  As the claim is written it fails: at width \<open>0\<close> there is no result, the value \<open>300\<close>
  in an 8-bit laneOf is \<open>44\<close>, the value \<open>16777217\<close> in a \<open>float\<close> laneOf is \<open>16777216\<close>,
  and for a pointer type no constant is made.
\<close>

theorem getConstantVectorPadded_in_bounds_counterexample:
  "getConstantVectorPadded 0 (IntegerTy 32) [] True = Inl EmptyVector \<and>
   getConstantVectorPadded 1 (IntegerTy 8) [300] False
     = Inr (ConstantVector [ConstantInt (IntegerTy 8) 44]) \<and>
   getConstantVectorPadded 1 FloatTy [16777217] False
     = Inr (ConstantVector [ConstantFP FloatTy (FiniteValue 16777216)]) \<and>
   getConstantVectorPadded 1 (PointerTy (IntegerTy 8)) [] False = Inl NotAnIntegerType"
  by (simp add: getConstantVectorPadded_def fillValues.simps fillPadding.simps laneConstant_def
      ConstantInt_get_def ConstantFP_get_def convert_def roundNearestEven_def
      ConstantVector_get_def isValidElementType_def Let_def)

lemma list_of_four:
  assumes "length xs = 4"
  shows "xs = [xs ! 0, xs ! 1, xs ! 2, xs ! 3]"
proof -
  obtain a b c d where "xs = [a, b, c, d]"
    using assms by (auto simp: length_Suc_conv numeral_eq_Suc)
  then show ?thesis by simp
qed

theorem getConstantVectorPadded_in_bounds_witness:
  "getConstantVectorPadded 4 (IntegerTy 32) [7, 9] True =
     Inr (ConstantVector [ConstantInt (IntegerTy 32) 7, ConstantInt (IntegerTy 32) 9,
                          ConstantInt (IntegerTy 32) 0, ConstantInt (IntegerTy 32) 0]) \<and>
   getConstantVectorPadded 1 FloatTy [7, 9] False = Inl IndexOutOfBounds \<and>
   getConstantVectorPadded 2 (StructTy []) [7] False = Inl NotAnIntegerType \<and>
   getConstantVectorPadded 0 DoubleTy [] False = Inl EmptyVector \<and>
   getConstantVectorPadded 2 (VectorTy (IntegerTy 8) 4) [7] False = Inl InvalidElementType"
proof -
  note th = getConstantVectorPadded_in_bounds
  have a: "length [7, 9 :: 32 word] \<le> unat (4 :: 32 word) \<and> 0 < unat (4 :: 32 word) \<and>
           (isFloatingPointTy (IntegerTy 32) \<or> isIntegerTy (IntegerTy 32))" by simp
  from th [of "IntegerTy 32" 4 "[7, 9]" True] a
  obtain cs where cs: "getConstantVectorPadded 4 (IntegerTy 32) [7, 9] True = Inr (ConstantVector cs)"
    and len: "length cs = unat (4 :: 32 word)"
    and el: "\<forall>i < length [7, 9 :: 32 word].
               cs ! i = (if isFloatingPointTy (IntegerTy 32)
                         then ConstantFP (IntegerTy 32) (convert (IntegerTy 32) (unat ([7, 9 :: 32 word] ! i)))
                         else ConstantInt (IntegerTy 32)
                                (unat ([7, 9 :: 32 word] ! i) mod 2 ^ getIntegerBitWidth (IntegerTy 32))) \<and>
               (fits (IntegerTy 32) (unat ([7, 9 :: 32 word] ! i)) \<longrightarrow>
                  cs ! i = exact (IntegerTy 32) (unat ([7, 9 :: 32 word] ! i)))"
    and pad: "\<forall>i. length [7, 9 :: 32 word] \<le> i \<and> i < unat (4 :: 32 word) \<longrightarrow>
                 cs ! i = (if True then exact (IntegerTy 32) 0 else UndefValue (IntegerTy 32))"
    by blast
  have "cs ! 0 = ConstantInt (IntegerTy 32) 7" "cs ! 1 = ConstantInt (IntegerTy 32) 9"
    using el by (simp_all add: exact_def fits_def)
  moreover have "cs ! 2 = ConstantInt (IntegerTy 32) 0" "cs ! 3 = ConstantInt (IntegerTy 32) 0"
    using pad by (simp_all add: exact_def)
  moreover have "cs = [cs ! 0, cs ! 1, cs ! 2, cs ! 3]"
    using len by (intro list_of_four) simp
  ultimately have "cs = [ConstantInt (IntegerTy 32) 7, ConstantInt (IntegerTy 32) 9,
                         ConstantInt (IntegerTy 32) 0, ConstantInt (IntegerTy 32) 0]"
    by simp
  moreover have "getConstantVectorPadded 1 FloatTy [7, 9] False = Inl IndexOutOfBounds"
    using th [of FloatTy 1 "[7, 9]" False] by simp
  moreover have "getConstantVectorPadded 2 (StructTy []) [7] False = Inl NotAnIntegerType"
    using th [of "StructTy []" 2 "[7]" False] by simp
  moreover have "getConstantVectorPadded 0 DoubleTy [] False = Inl EmptyVector"
    using th [of DoubleTy 0 "[]" False] by simp
  moreover have "getConstantVectorPadded 2 (VectorTy (IntegerTy 8) 4) [7] False = Inl InvalidElementType"
    using th [of "VectorTy (IntegerTy 8) 4" 2 "[7]" False] by simp
  ultimately show ?thesis using cs by simp
qed

subsection \<open>createCascadeBlocks\<close>

lemma to_string_digits [simp]:
  "to_string 0 = ''0''" "to_string (Suc 0) = ''1''" "to_string 2 = ''2''" "to_string 3 = ''3''"
  "to_string 4 = ''4''" "to_string 5 = ''5''"
  by (simp_all add: to_string.simps)


lemma digit_inj:
  "a < 10 \<Longrightarrow> b < 10 \<Longrightarrow> ''0123456789'' ! a = ''0123456789'' ! b \<Longrightarrow> a = b"
  by (subst (asm) nth_eq_iff_index_eq) simp_all

lemma to_string_nonempty: "to_string n \<noteq> []"
  by (subst to_string.simps) simp

lemma to_string_inj: "to_string n = to_string m \<Longrightarrow> n = m"
proof (induction n arbitrary: m rule: less_induct)
  case (less n)
  show ?case
  proof (cases "n < 10")
    case True
    then have n: "to_string n = [''0123456789'' ! n]" by (subst to_string.simps) simp
    show ?thesis
    proof (cases "m < 10")
      case True
      then have "to_string m = [''0123456789'' ! m]" by (subst to_string.simps) simp
      then show ?thesis using less.prems n \<open>n < 10\<close> True digit_inj by auto
    next
      case False
      then have "to_string m = to_string (m div 10) @ [''0123456789'' ! (m mod 10)]"
        by (subst to_string.simps) simp
      then show ?thesis using less.prems n to_string_nonempty [of "m div 10"] by auto
    qed
  next
    case False
    then have n: "to_string n = to_string (n div 10) @ [''0123456789'' ! (n mod 10)]"
      by (subst to_string.simps) simp
    show ?thesis
    proof (cases "m < 10")
      case True
      then have "to_string m = [''0123456789'' ! m]" by (subst to_string.simps) simp
      then show ?thesis using less.prems n to_string_nonempty [of "n div 10"] by auto
    next
      case m: False
      then have "to_string m = to_string (m div 10) @ [''0123456789'' ! (m mod 10)]"
        by (subst to_string.simps) simp
      then have a: "to_string (n div 10) = to_string (m div 10)"
        and b: "''0123456789'' ! (n mod 10) = ''0123456789'' ! (m mod 10)"
        using less.prems n by auto
      have "n div 10 < n" using False by simp
      then have "n div 10 = m div 10" using less.IH a by blast
      moreover have "n mod 10 = m mod 10" using b digit_inj [of "n mod 10" "m mod 10"] by simp
      ultimately show ?thesis by (metis div_mult_mod_eq)
    qed
  qed
qed

lemma makeUniqueName_Some:
  "makeUniqueName n vmap baseName u = Some (name, k) \<Longrightarrow>
   name \<notin> set vmap \<and> name = baseName @ to_string (unat k)"
proof (induction n arbitrary: u)
  case 0
  then show ?case by (simp add: makeUniqueName.simps)
next
  case (Suc n)
  show ?case
  proof (cases "baseName @ to_string (unat (u + 1)) \<in> set vmap")
    case True
    then have "makeUniqueName n vmap baseName (u + 1) = Some (name, k)"
      using Suc.prems by (simp add: makeUniqueName.simps [of "Suc n"])
    then show ?thesis by (rule Suc.IH)
  next
    case False
    then show ?thesis
      using Suc.prems by (auto simp: makeUniqueName.simps [of "Suc n"] Let_def)
  qed
qed

lemma makeUniqueName_None:
  "makeUniqueName n vmap baseName u = None \<Longrightarrow> j < n \<Longrightarrow>
   baseName @ to_string (unat (u + 1 + of_nat j)) \<in> set vmap"
proof (induction n arbitrary: u j)
  case 0
  then show ?case by simp
next
  case (Suc n)
  have taken: "baseName @ to_string (unat (u + 1)) \<in> set vmap"
    using Suc.prems(1) by (auto simp: makeUniqueName.simps [of "Suc n"] Let_def split: if_splits)
  then have rec: "makeUniqueName n vmap baseName (u + 1) = None"
    using Suc.prems(1) by (simp add: makeUniqueName.simps [of "Suc n"] Let_def)
  show ?case
  proof (cases j)
    case 0
    then show ?thesis using taken by simp
  next
    case (Suc j')
    then have "j' < n" using Suc.prems(2) by simp
    have "u + 1 + of_nat j = u + 1 + 1 + of_nat j'"
      using Suc by simp
    then show ?thesis
      using Suc.IH [OF rec \<open>j' < n\<close>] by (simp only:)
  qed
qed

lemma makeUniqueName_returns:
  assumes "length vmap < 2 ^ 32"
  shows "makeUniqueName (2 ^ 32) vmap baseName u \<noteq> None"
proof
  assume none: "makeUniqueName (2 ^ 32) vmap baseName u = None"
  let ?g = "\<lambda>j. baseName @ to_string (unat (u + 1 + of_nat j))"
  have sub: "?g ` {..<2 ^ 32} \<subseteq> set vmap"
    using makeUniqueName_None [OF none] by auto
  have "inj_on ?g {..<2 ^ 32}"
  proof (rule inj_onI)
    fix x y :: nat
    assume x: "x \<in> {..<2 ^ 32}" and y: "y \<in> {..<2 ^ 32}" and eq: "?g x = ?g y"
    from eq have "unat (u + 1 + of_nat x) = unat (u + 1 + of_nat y)"
      using to_string_inj by simp
    then have "u + 1 + of_nat x = u + 1 + of_nat y" by (simp only: word_unat_eq_iff)
    then have "(of_nat x :: 32 word) = of_nat y" by simp
    then have "unat (of_nat x :: 32 word) = unat (of_nat y :: 32 word)" by simp
    then show "x = y" using x y by (simp add: unat_of_nat)
  qed
  then have "card (?g ` {..<2 ^ 32}) = 2 ^ 32"
    by (simp add: card_image)
  moreover have "card (?g ` {..<2 ^ 32}) \<le> card (set vmap)"
    using sub by (intro card_mono) simp_all
  moreover have "card (set vmap) \<le> length vmap" by (rule card_length)
  ultimately show False using assms by simp
qed

lemma set_interleave:
  "length cs = length ms \<Longrightarrow> set (interleave cs ms) = set cs \<union> set ms"
  by (induction cs ms rule: list_induct2) (auto simp: interleave_def)

lemma fold_max_ge: "x \<in> set xs \<Longrightarrow> x \<le> fold max xs (a::nat)"
proof (induction xs arbitrary: a)
  case Nil then show ?case by simp
next
  case (Cons y ys)
  have mono: "a \<le> fold max ys a" for a :: nat
    by (induction ys arbitrary: a) (auto intro: order_trans [OF max.cobounded2])
  from Cons show ?case
    using mono [of "max y a"] by auto
qed

lemma createValueName_facts:
  assumes "createValueName name f = Some (n, f')"
  shows "blocks f' = blocks f" "blockName f' = blockName f"
    "discardValueNames f' = discardValueNames f"
    "symtab f' = n # symtab f" "n \<notin> set (symtab f)" "hasPrefix name n"
    "name \<notin> set (symtab f) \<Longrightarrow> n = name \<and> LastUnique f' = LastUnique f"
proof -
  show "blocks f' = blocks f" "blockName f' = blockName f"
    "discardValueNames f' = discardValueNames f" "symtab f' = n # symtab f"
    "name \<notin> set (symtab f) \<Longrightarrow> n = name \<and> LastUnique f' = LastUnique f"
    using assms by (auto simp: createValueName_def split: if_splits option.splits)
  show "n \<notin> set (symtab f)" "hasPrefix name n"
    using assms makeUniqueName_Some [of "2 ^ 32" "symtab f" name "LastUnique f"]
    by (auto simp: createValueName_def hasPrefix_def split: if_splits option.splits)
qed

lemma createValueName_returns:
  assumes "length (symtab f) < 2 ^ 32"
  shows "\<exists>r. createValueName name f = Some r"
  using makeUniqueName_returns [OF assms, of name "LastUnique f"]
  by (auto simp: createValueName_def split: option.splits)

lemma BasicBlock_Create_facts:
  assumes "BasicBlock_Create name f = Some (bb, f')"
  shows "bb \<notin> set (blocks f)" "blocks f' = blocks f @ [bb]"
    "\<And>b. b \<noteq> bb \<Longrightarrow> blockName f' b = blockName f b"
    "discardValueNames f' = discardValueNames f"
    "length (symtab f') \<le> Suc (length (symtab f))"
    "\<not> discardValueNames f \<Longrightarrow> name \<noteq> [] \<Longrightarrow> hasPrefix name (blockName f' bb)"
    "\<not> discardValueNames f \<Longrightarrow> name \<noteq> [] \<Longrightarrow> name \<notin> set (symtab f) \<Longrightarrow>
       blockName f' bb = name \<and> symtab f' = name # symtab f"
proof -
  define g where "g = f\<lparr>blocks := blocks f @ [Suc (fold max (blocks f) 0)],
                         blockName := (blockName f)(Suc (fold max (blocks f) 0) := [])\<rparr>"
  have bb: "bb = Suc (fold max (blocks f) 0)" and sn: "setName bb name g = Some f'"
    using assms by (auto simp: BasicBlock_Create_def Let_def g_def split: option.splits)
  show "bb \<notin> set (blocks f)"
    using fold_max_ge [of bb "blocks f" 0] bb by auto
  have g: "blocks g = blocks f @ [bb]" "symtab g = symtab f" "discardValueNames g = discardValueNames f"
    "blockName g = (blockName f)(bb := [])"
    by (simp_all add: g_def bb)
  consider (same) "f' = g" "discardValueNames f \<or> name = []"
    | (named) n h where "\<not> discardValueNames f" "name \<noteq> []" "createValueName name g = Some (n, h)"
                         "f' = h\<lparr>blockName := (blockName h)(bb := n)\<rparr>"
    using sn g by (auto simp: setName_def split: if_splits option.splits)
  then have all: "blocks f' = blocks f @ [bb] \<and> (\<forall>b. b \<noteq> bb \<longrightarrow> blockName f' b = blockName f b) \<and>
    discardValueNames f' = discardValueNames f \<and> length (symtab f') \<le> Suc (length (symtab f)) \<and>
    (\<not> discardValueNames f \<longrightarrow> name \<noteq> [] \<longrightarrow> hasPrefix name (blockName f' bb)) \<and>
    (\<not> discardValueNames f \<longrightarrow> name \<noteq> [] \<longrightarrow> name \<notin> set (symtab f) \<longrightarrow>
       blockName f' bb = name \<and> symtab f' = name # symtab f)"
  proof cases
    case same
    then show ?thesis using g by auto
  next
    case named
    note cv = createValueName_facts [OF named(3)]
    show ?thesis
      using cv(1-6) cv(7) named(1,2,4) g by auto
  qed
  then show "blocks f' = blocks f @ [bb]"
    "\<And>b. b \<noteq> bb \<Longrightarrow> blockName f' b = blockName f b"
    "discardValueNames f' = discardValueNames f"
    "length (symtab f') \<le> Suc (length (symtab f))"
    "\<not> discardValueNames f \<Longrightarrow> name \<noteq> [] \<Longrightarrow> hasPrefix name (blockName f' bb)"
    "\<not> discardValueNames f \<Longrightarrow> name \<noteq> [] \<Longrightarrow> name \<notin> set (symtab f) \<Longrightarrow>
       blockName f' bb = name \<and> symtab f' = name # symtab f"
    by blast+
qed

lemma BasicBlock_Create_returns:
  assumes "discardValueNames f \<or> length (symtab f) < 2 ^ 32"
  shows "\<exists>bb f'. BasicBlock_Create name f = Some (bb, f')"
proof -
  define g where "g = f\<lparr>blocks := blocks f @ [Suc (fold max (blocks f) 0)],
                         blockName := (blockName f)(Suc (fold max (blocks f) 0) := [])\<rparr>"
  have "\<exists>r. setName (Suc (fold max (blocks f) 0)) name g = Some r"
  proof (cases "discardValueNames f")
    case True
    then show ?thesis by (simp add: setName_def g_def)
  next
    case False
    then have "length (symtab g) < 2 ^ 32" using assms by (simp add: g_def)
    from createValueName_returns [OF this, of name] show ?thesis
      by (auto simp: setName_def)
  qed
  then show ?thesis
    by (auto simp: BasicBlock_Create_def Let_def g_def)
qed

lemma cascade_names:
  "condName l \<noteq> []" "maskedName l \<noteq> []"
  "condName l \<noteq> maskedName k" "maskedName k \<noteq> condName l"
  "condName l \<noteq> ''cascade_end''" "maskedName l \<noteq> ''cascade_end''"
  "condName l = condName k \<longleftrightarrow> l = k" "maskedName l = maskedName k \<longleftrightarrow> l = k"
  using to_string_inj [of l k] by (auto simp: condName_def maskedName_def)

lemma createCascadeLoop_spec:
  assumes "createCascadeLoop W lane (f, cs, ms) = Some (f', cs', ms')"
  shows "\<exists>conds masks.
           length conds = W - lane \<and> length masks = W - lane \<and>
           cs' = cs @ conds \<and> ms' = ms @ masks \<and>
           blocks f' = blocks f @ interleave conds masks \<and>
           (distinct (blocks f) \<longrightarrow> distinct (blocks f')) \<and>
           set (interleave conds masks) \<inter> set (blocks f) = {} \<and>
           (\<forall>b \<in> set (blocks f). blockName f' b = blockName f b) \<and>
           discardValueNames f' = discardValueNames f \<and>
           length (symtab f') \<le> length (symtab f) + 2 * (W - lane) \<and>
           (\<not> discardValueNames f \<longrightarrow>
              (\<forall>k < W - lane. hasPrefix (condName (lane + k)) (blockName f' (conds ! k)) \<and>
                               hasPrefix (maskedName (lane + k)) (blockName f' (masks ! k)))) \<and>
           (\<not> discardValueNames f \<and>
            (\<forall>l. lane \<le> l \<and> l < W \<longrightarrow> condName l \<notin> set (symtab f) \<and> maskedName l \<notin> set (symtab f)) \<longrightarrow>
              map (blockName f') conds = map condName [lane..<W] \<and>
              map (blockName f') masks = map maskedName [lane..<W] \<and>
              set (symtab f') = set (symtab f) \<union> condName ` {lane..<W} \<union> maskedName ` {lane..<W})"
  using assms
proof (induction W lane "(f, cs, ms)" arbitrary: f cs ms rule: createCascadeLoop.induct)
  case (1 W lane f cs ms)
  show ?case
  proof (cases "lane < W")
    case False
    with "1.prems" show ?thesis
      by (simp add: createCascadeLoop.simps interleave_def)
  next
    case True
    from "1.prems" True obtain c f1 where
      c: "BasicBlock_Create (''cascade_cond_'' @ to_string lane) f = Some (c, f1)"
      by (auto simp: createCascadeLoop.simps [of W lane] split: option.splits)
    from "1.prems" True c obtain m f2 where
      m: "BasicBlock_Create (''cascade_masked_'' @ to_string lane) f1 = Some (m, f2)"
      by (auto simp: createCascadeLoop.simps [of W lane] split: option.splits)
    have run: "createCascadeLoop W (Suc lane) (f2, cs @ [c], ms @ [m]) = Some (f', cs', ms')"
      using "1.prems" True c m by (simp add: createCascadeLoop.simps [of W lane])
    from "1.hyps" [OF True c refl m refl run] show ?thesis
    proof (elim exE conjE)
      fix conds masks
      assume ih:
        "length conds = W - Suc lane" "length masks = W - Suc lane"
        "cs' = (cs @ [c]) @ conds" "ms' = (ms @ [m]) @ masks"
        "blocks f' = blocks f2 @ interleave conds masks"
        "distinct (blocks f2) \<longrightarrow> distinct (blocks f')"
        "set (interleave conds masks) \<inter> set (blocks f2) = {}"
        "\<forall>b \<in> set (blocks f2). blockName f' b = blockName f2 b"
        "discardValueNames f' = discardValueNames f2"
        "length (symtab f') \<le> length (symtab f2) + 2 * (W - Suc lane)"
        "\<not> discardValueNames f2 \<longrightarrow>
           (\<forall>k < W - Suc lane. hasPrefix (condName (Suc lane + k)) (blockName f' (conds ! k)) \<and>
                                 hasPrefix (maskedName (Suc lane + k)) (blockName f' (masks ! k)))"
        "\<not> discardValueNames f2 \<and>
           (\<forall>l. Suc lane \<le> l \<and> l < W \<longrightarrow> condName l \<notin> set (symtab f2) \<and> maskedName l \<notin> set (symtab f2)) \<longrightarrow>
             map (blockName f') conds = map condName [Suc lane..<W] \<and>
             map (blockName f') masks = map maskedName [Suc lane..<W] \<and>
             set (symtab f') = set (symtab f2) \<union> condName ` {Suc lane..<W} \<union> maskedName ` {Suc lane..<W}"
      note cf = BasicBlock_Create_facts [OF c [folded condName_def]]
      note mf = BasicBlock_Create_facts [OF m [folded maskedName_def]]
      have b1: "blocks f1 = blocks f @ [c]" and b2: "blocks f2 = blocks f @ [c, m]"
        using cf(2) mf(2) by simp_all
      have fr: "c \<notin> set (blocks f)" "m \<notin> set (blocks f)" "m \<noteq> c"
        using cf(1) mf(1) b1 by auto
      have d2: "discardValueNames f1 = discardValueNames f" "discardValueNames f2 = discardValueNames f"
        using cf(4) mf(4) by simp_all
      have old: "\<forall>b \<in> set (blocks f). blockName f2 b = blockName f b"
      proof
        fix b assume "b \<in> set (blocks f)"
        then have "b \<noteq> c" "b \<noteq> m" using fr by auto
        then show "blockName f2 b = blockName f b"
          using cf(3) [of b] mf(3) [of b] by simp
      qed
      have keep: "blockName f' c = blockName f1 c" "blockName f' m = blockName f2 m"
        using ih(8) b2 mf(3) [of c] fr by auto
      have il: "interleave (c # conds) (m # masks) = c # m # interleave conds masks"
        by (simp add: interleave_def)
      have up: "[lane..<W] = lane # [Suc lane..<W]"
        using True by (simp add: upt_conv_Cons)
      have iv: "{lane..<W} = insert lane {Suc lane..<W}"
        using True by auto
      have pre: "hasPrefix (condName (lane + k)) (blockName f' ((c # conds) ! k)) \<and>
                 hasPrefix (maskedName (lane + k)) (blockName f' ((m # masks) ! k))"
        if nd: "\<not> discardValueNames f" and k: "k < W - lane" for k
      proof (cases k)
        case 0
        then show ?thesis
          using cf(6) mf(6) nd d2 keep cascade_names(1,2) by simp
      next
        case (Suc k')
        then have "k' < W - Suc lane" using k by simp
        then show ?thesis
          using ih(11) nd d2 Suc by simp
      qed
      have exact: "map (blockName f') (c # conds) = map condName [lane..<W] \<and>
                map (blockName f') (m # masks) = map maskedName [lane..<W] \<and>
                set (symtab f') = set (symtab f) \<union> condName ` {lane..<W} \<union> maskedName ` {lane..<W}"
        if nd: "\<not> discardValueNames f"
          and free: "\<forall>l. lane \<le> l \<and> l < W \<longrightarrow> condName l \<notin> set (symtab f) \<and> maskedName l \<notin> set (symtab f)"
      proof -
        have f0: "condName lane \<notin> set (symtab f)" "maskedName lane \<notin> set (symtab f)"
          using free True by auto
        have n1: "blockName f1 c = condName lane" and s1: "symtab f1 = condName lane # symtab f"
          using cf(7) [OF nd cascade_names(1) f0(1)] by simp_all
        have "maskedName lane \<notin> set (symtab f1)"
          using f0(2) cascade_names(4) by (simp add: s1)
        from mf(7) [OF _ cascade_names(2) this] nd d2
        have n2: "blockName f2 m = maskedName lane" and s2: "symtab f2 = maskedName lane # symtab f1"
          by simp_all
        have free2: "\<forall>l. Suc lane \<le> l \<and> l < W \<longrightarrow>
                       condName l \<notin> set (symtab f2) \<and> maskedName l \<notin> set (symtab f2)"
          using free cascade_names(3,4,7,8) by (auto simp: s1 s2)
        from ih(12) nd d2 free2
        have r: "map (blockName f') conds = map condName [Suc lane..<W]"
          "map (blockName f') masks = map maskedName [Suc lane..<W]"
          "set (symtab f') = set (symtab f2) \<union> condName ` {Suc lane..<W} \<union> maskedName ` {Suc lane..<W}"
          by simp_all
        show ?thesis
          using r keep n1 n2 by (auto simp: up iv s1 s2)
      qed
      show ?thesis
      proof (rule exI [of _ "c # conds"], rule exI [of _ "m # masks"], intro conjI)
        show "length (c # conds) = W - lane" "length (m # masks) = W - lane"
          using ih True by simp_all
        show "cs' = cs @ c # conds" "ms' = ms @ m # masks"
          using ih by simp_all
        show "blocks f' = blocks f @ interleave (c # conds) (m # masks)"
          using ih b2 by (simp add: il)
        show "distinct (blocks f) \<longrightarrow> distinct (blocks f')"
          using ih(6) b2 fr by simp
        show "set (interleave (c # conds) (m # masks)) \<inter> set (blocks f) = {}"
          using ih(7) b2 fr by (auto simp: il)
        show "\<forall>b \<in> set (blocks f). blockName f' b = blockName f b"
          using ih(8) old b2 by simp
        show "discardValueNames f' = discardValueNames f"
          using ih(9) d2 by simp
        show "length (symtab f') \<le> length (symtab f) + 2 * (W - lane)"
          using ih(10) cf(5) mf(5) True by simp
        show "\<not> discardValueNames f \<longrightarrow>
                (\<forall>k < W - lane. hasPrefix (condName (lane + k)) (blockName f' ((c # conds) ! k)) \<and>
                                 hasPrefix (maskedName (lane + k)) (blockName f' ((m # masks) ! k)))"
          using pre by blast
        show "\<not> discardValueNames f \<and>
              (\<forall>l. lane \<le> l \<and> l < W \<longrightarrow> condName l \<notin> set (symtab f) \<and> maskedName l \<notin> set (symtab f)) \<longrightarrow>
                map (blockName f') (c # conds) = map condName [lane..<W] \<and>
                map (blockName f') (m # masks) = map maskedName [lane..<W] \<and>
                set (symtab f') = set (symtab f) \<union> condName ` {lane..<W} \<union> maskedName ` {lane..<W}"
          using exact by blast
      qed
    qed
  qed
qed

lemma createCascadeLoop_returns:
  "discardValueNames f \<or> length (symtab f) + 2 * (W - lane) \<le> 2 ^ 32 \<Longrightarrow>
   \<exists>r. createCascadeLoop W lane (f, cs, ms) = Some r"
proof (induction W lane "(f, cs, ms)" arbitrary: f cs ms rule: createCascadeLoop.induct)
  case (1 W lane f cs ms)
  show ?case
  proof (cases "lane < W")
    case False
    then show ?thesis by (simp add: createCascadeLoop.simps)
  next
    case True
    have "discardValueNames f \<or> length (symtab f) < 2 ^ 32"
      using "1.prems" True by auto
    from BasicBlock_Create_returns [OF this]
    obtain c f1 where c: "BasicBlock_Create (''cascade_cond_'' @ to_string lane) f = Some (c, f1)"
      by blast
    note cf = BasicBlock_Create_facts [OF c]
    have "discardValueNames f1 \<or> length (symtab f1) < 2 ^ 32"
      using "1.prems" True cf(4,5) by auto
    from BasicBlock_Create_returns [OF this]
    obtain m f2 where m: "BasicBlock_Create (''cascade_masked_'' @ to_string lane) f1 = Some (m, f2)"
      by blast
    note mf = BasicBlock_Create_facts [OF m]
    have "discardValueNames f2 \<or> length (symtab f2) + 2 * (W - Suc lane) \<le> 2 ^ 32"
      using "1.prems" True cf(4,5) mf(4,5) by auto
    from "1.hyps" [OF True c refl m refl this]
    show ?thesis
      using True c m by (simp add: createCascadeLoop.simps [of W lane])
  qed
qed

text \<open>
  Claim C8. For every vector width \<open>N\<close>, \<open>createCascadeBlocks\<close> creates exactly
  \<open>N\<close> condition blocks and \<open>N\<close> masked blocks, appended to the two output vectors
  in lane order \<open>0..N-1\<close>, and exactly one merge block, which it returns. The
  function's block list grows by these \<open>2N + 1\<close> new blocks, pair by pair and then the
  merge block, and by nothing else; the blocks the function had keep their names. Where
  names are kept, the blocks of lane \<open>lane\<close> have names that begin with
  \<open>cascade_cond_<lane>\<close> and \<open>cascade_masked_<lane>\<close>, and the merge block one that
  begins with \<open>cascade_end\<close>; they are exactly these names when none of them is in the
  function's symbol table. The call returns when value names are discarded or the symbol
  table has room for \<open>2N + 1\<close> more names below \<open>2 ^ 32\<close> entries.
\<close>

theorem createCascadeBlocks_shape:
  "(discardValueNames f \<or> length (symtab f) + 2 * unat vectorWidth < 2 ^ 32 \<longrightarrow>
      (\<exists>r. createCascadeBlocks f vectorWidth cs ms = Some r)) \<and>
   (\<forall>end_bb f' cs' ms'.
      createCascadeBlocks f vectorWidth cs ms = Some (end_bb, f', cs', ms') \<longrightarrow>
      (\<exists>conds masks.
         length conds = unat vectorWidth \<and> length masks = unat vectorWidth \<and>
         cs' = cs @ conds \<and> ms' = ms @ masks \<and>
         blocks f' = blocks f @ interleave conds masks @ [end_bb] \<and>
         (distinct (blocks f) \<longrightarrow> distinct (blocks f')) \<and>
         set (interleave conds masks @ [end_bb]) \<inter> set (blocks f) = {} \<and>
         (\<forall>b \<in> set (blocks f). blockName f' b = blockName f b) \<and>
         (\<not> discardValueNames f \<longrightarrow>
            (\<forall>lane < unat vectorWidth.
               hasPrefix (condName lane) (blockName f' (conds ! lane)) \<and>
               hasPrefix (maskedName lane) (blockName f' (masks ! lane))) \<and>
            hasPrefix ''cascade_end'' (blockName f' end_bb)) \<and>
         (\<not> discardValueNames f \<and> ''cascade_end'' \<notin> set (symtab f) \<and>
          (\<forall>lane < unat vectorWidth.
             condName lane \<notin> set (symtab f) \<and> maskedName lane \<notin> set (symtab f)) \<longrightarrow>
            map (blockName f') conds = map condName [0..<unat vectorWidth] \<and>
            map (blockName f') masks = map maskedName [0..<unat vectorWidth] \<and>
            blockName f' end_bb = ''cascade_end'')))"
proof (intro conjI impI allI)
  assume a: "discardValueNames f \<or> length (symtab f) + 2 * unat vectorWidth < 2 ^ 32"
  then have "discardValueNames f \<or> length (symtab f) + 2 * (unat vectorWidth - 0) \<le> 2 ^ 32"
    by auto
  from createCascadeLoop_returns [OF this, of cs ms]
  obtain g gcs gms where lp: "createCascadeLoop (unat vectorWidth) 0 (f, cs, ms) = Some (g, gcs, gms)"
    by auto
  from createCascadeLoop_spec [OF lp]
  have "discardValueNames g = discardValueNames f"
    and "length (symtab g) \<le> length (symtab f) + 2 * (unat vectorWidth - 0)"
    by auto
  then have "discardValueNames g \<or> length (symtab g) < 2 ^ 32"
    using a by auto
  from BasicBlock_Create_returns [OF this, of "''cascade_end''"]
  show "\<exists>r. createCascadeBlocks f vectorWidth cs ms = Some r"
    using lp by (auto simp: createCascadeBlocks_def)
next
  fix end_bb f' cs' ms'
  assume r: "createCascadeBlocks f vectorWidth cs ms = Some (end_bb, f', cs', ms')"
  then obtain g where lp: "createCascadeLoop (unat vectorWidth) 0 (f, cs, ms) = Some (g, cs', ms')"
    and e: "BasicBlock_Create ''cascade_end'' g = Some (end_bb, f')"
    by (auto simp: createCascadeBlocks_def split: option.splits)
  note ef = BasicBlock_Create_facts [OF e]
  from createCascadeLoop_spec [OF lp]
  show "\<exists>conds masks.
         length conds = unat vectorWidth \<and> length masks = unat vectorWidth \<and>
         cs' = cs @ conds \<and> ms' = ms @ masks \<and>
         blocks f' = blocks f @ interleave conds masks @ [end_bb] \<and>
         (distinct (blocks f) \<longrightarrow> distinct (blocks f')) \<and>
         set (interleave conds masks @ [end_bb]) \<inter> set (blocks f) = {} \<and>
         (\<forall>b \<in> set (blocks f). blockName f' b = blockName f b) \<and>
         (\<not> discardValueNames f \<longrightarrow>
            (\<forall>lane < unat vectorWidth.
               hasPrefix (condName lane) (blockName f' (conds ! lane)) \<and>
               hasPrefix (maskedName lane) (blockName f' (masks ! lane))) \<and>
            hasPrefix ''cascade_end'' (blockName f' end_bb)) \<and>
         (\<not> discardValueNames f \<and> ''cascade_end'' \<notin> set (symtab f) \<and>
          (\<forall>lane < unat vectorWidth.
             condName lane \<notin> set (symtab f) \<and> maskedName lane \<notin> set (symtab f)) \<longrightarrow>
            map (blockName f') conds = map condName [0..<unat vectorWidth] \<and>
            map (blockName f') masks = map maskedName [0..<unat vectorWidth] \<and>
            blockName f' end_bb = ''cascade_end'')"
  proof (elim exE conjE)
    fix conds masks
    assume sp:
      "length conds = unat vectorWidth - 0" "length masks = unat vectorWidth - 0"
      "cs' = cs @ conds" "ms' = ms @ masks"
      "blocks g = blocks f @ interleave conds masks"
      "distinct (blocks f) \<longrightarrow> distinct (blocks g)"
      "set (interleave conds masks) \<inter> set (blocks f) = {}"
      "\<forall>b \<in> set (blocks f). blockName g b = blockName f b"
      "discardValueNames g = discardValueNames f"
      "\<not> discardValueNames f \<longrightarrow>
         (\<forall>k < unat vectorWidth - 0. hasPrefix (condName (0 + k)) (blockName g (conds ! k)) \<and>
                               hasPrefix (maskedName (0 + k)) (blockName g (masks ! k)))"
      "\<not> discardValueNames f \<and>
         (\<forall>l. 0 \<le> l \<and> l < unat vectorWidth \<longrightarrow> condName l \<notin> set (symtab f) \<and> maskedName l \<notin> set (symtab f)) \<longrightarrow>
           map (blockName g) conds = map condName [0..<unat vectorWidth] \<and>
           map (blockName g) masks = map maskedName [0..<unat vectorWidth] \<and>
           set (symtab g) = set (symtab f) \<union> condName ` {0..<unat vectorWidth} \<union> maskedName ` {0..<unat vectorWidth}"
    have fr: "end_bb \<notin> set (blocks g)" and bl: "blocks f' = blocks g @ [end_bb]"
      using ef(1,2) by simp_all
    have sub: "set conds \<subseteq> set (blocks g)" "set masks \<subseteq> set (blocks g)"
      using sp(1,2) by (auto simp: sp(5) set_interleave)
    have same: "blockName f' b = blockName g b" if "b \<in> set (blocks g)" for b
      using ef(3) [of b] that fr by auto
    have nc: "map (blockName f') conds = map (blockName g) conds"
      and nk: "map (blockName f') masks = map (blockName g) masks"
      using sub same by auto
    have pre: "hasPrefix (condName lane) (blockName f' (conds ! lane)) \<and>
               hasPrefix (maskedName lane) (blockName f' (masks ! lane))"
      if "\<not> discardValueNames f" "lane < unat vectorWidth" for lane
    proof -
      have "conds ! lane \<in> set (blocks g)" "masks ! lane \<in> set (blocks g)"
        using sub sp(1,2) that(2) by (auto simp: subset_iff)
      then show ?thesis
        using sp(10) that same by simp
    qed
    have pe: "hasPrefix ''cascade_end'' (blockName f' end_bb)" if "\<not> discardValueNames f"
      using ef(6) that sp(9) by simp
    have exact: "map (blockName f') conds = map condName [0..<unat vectorWidth] \<and>
            map (blockName f') masks = map maskedName [0..<unat vectorWidth] \<and>
            blockName f' end_bb = ''cascade_end''"
      if nd: "\<not> discardValueNames f" and fe: "''cascade_end'' \<notin> set (symtab f)"
        and free: "\<forall>lane < unat vectorWidth.
             condName lane \<notin> set (symtab f) \<and> maskedName lane \<notin> set (symtab f)"
    proof -
      from sp(11) nd free
      have n: "map (blockName g) conds = map condName [0..<unat vectorWidth]"
           "map (blockName g) masks = map maskedName [0..<unat vectorWidth]"
        and st: "set (symtab g) = set (symtab f) \<union> condName ` {0..<unat vectorWidth}
                   \<union> maskedName ` {0..<unat vectorWidth}"
        by simp_all
      have "''cascade_end'' \<noteq> condName x" "''cascade_end'' \<noteq> maskedName x" for x
        by (simp_all add: condName_def maskedName_def)
      then have "''cascade_end'' \<notin> set (symtab g)"
        using fe by (auto simp: st)
      from ef(7) [OF _ _ this] nd sp(9) have "blockName f' end_bb = ''cascade_end''"
        by simp
      then show ?thesis using n nc nk by simp
    qed
    show ?thesis
    proof (rule exI [of _ conds], rule exI [of _ masks], intro conjI)
      show "length conds = unat vectorWidth" "length masks = unat vectorWidth"
        using sp by simp_all
      show "cs' = cs @ conds" "ms' = ms @ masks"
        using sp by simp_all
      show "blocks f' = blocks f @ interleave conds masks @ [end_bb]"
        using sp bl by simp
      show "distinct (blocks f) \<longrightarrow> distinct (blocks f')"
        using sp(6) fr bl by simp
      show "set (interleave conds masks @ [end_bb]) \<inter> set (blocks f) = {}"
        using sp(7) fr by (auto simp: sp(5))
      show "\<forall>b \<in> set (blocks f). blockName f' b = blockName f b"
        using sp(8) same by (simp add: sp(5))
      show "\<not> discardValueNames f \<longrightarrow>
            (\<forall>lane < unat vectorWidth.
               hasPrefix (condName lane) (blockName f' (conds ! lane)) \<and>
               hasPrefix (maskedName lane) (blockName f' (masks ! lane))) \<and>
            hasPrefix ''cascade_end'' (blockName f' end_bb)"
        using pre pe by blast
      show "\<not> discardValueNames f \<and> ''cascade_end'' \<notin> set (symtab f) \<and>
          (\<forall>lane < unat vectorWidth.
             condName lane \<notin> set (symtab f) \<and> maskedName lane \<notin> set (symtab f)) \<longrightarrow>
            map (blockName f') conds = map condName [0..<unat vectorWidth] \<and>
            map (blockName f') masks = map maskedName [0..<unat vectorWidth] \<and>
            blockName f' end_bb = ''cascade_end''"
        using exact by blast
    qed
  qed
qed

lemma interleave_two: "interleave [c0, c1] [m0, m1] = [c0, m0, c1, m1]"
  by (simp add: interleave_def)

lemma list_of_two: "length xs = 2 \<Longrightarrow> \<exists>a b. xs = [a, b]"
  by (auto simp: length_Suc_conv numeral_2_eq_2)

theorem createCascadeBlocks_shape_witness:
  "\<exists>end_bb f' c0 m0 c1 m1.
     createCascadeBlocks exampleFunction 2 [] [] = Some (end_bb, f', [c0, c1], [m0, m1]) \<and>
     blocks f' = [4, 2, c0, m0, c1, m1, end_bb] \<and>
     distinct (blocks f') \<and>
     map (blockName f') [4, 2, c0, m0, c1, m1, end_bb] =
       [''entry'', ''exit'', ''cascade_cond_0'', ''cascade_masked_0'',
        ''cascade_cond_1'', ''cascade_masked_1'', ''cascade_end'']"
proof -
  note th = createCascadeBlocks_shape [of exampleFunction 2 "[]" "[]"]
  have "discardValueNames exampleFunction \<or>
        length (symtab exampleFunction) + 2 * unat (2 :: 32 word) < 2 ^ 32"
    by (simp add: exampleFunction_def)
  with th obtain r where "createCascadeBlocks exampleFunction 2 [] [] = Some r"
    by blast
  then obtain end_bb f' cs' ms' where
    r: "createCascadeBlocks exampleFunction 2 [] [] = Some (end_bb, f', cs', ms')"
    by (cases r) auto
  have free: "\<not> discardValueNames exampleFunction \<and> ''cascade_end'' \<notin> set (symtab exampleFunction) \<and>
          (\<forall>lane < unat (2 :: 32 word).
             condName lane \<notin> set (symtab exampleFunction) \<and>
             maskedName lane \<notin> set (symtab exampleFunction))"
    by (simp add: exampleFunction_def condName_def maskedName_def)
  have u: "[0..<(2 :: nat)] = [0, 1]"
    by (simp add: upt_rec)
  from th r have "\<exists>conds masks.
         length conds = unat (2 :: 32 word) \<and> length masks = unat (2 :: 32 word) \<and>
         cs' = [] @ conds \<and> ms' = [] @ masks \<and>
         blocks f' = blocks exampleFunction @ interleave conds masks @ [end_bb] \<and>
         (distinct (blocks exampleFunction) \<longrightarrow> distinct (blocks f')) \<and>
         set (interleave conds masks @ [end_bb]) \<inter> set (blocks exampleFunction) = {} \<and>
         (\<forall>b \<in> set (blocks exampleFunction). blockName f' b = blockName exampleFunction b) \<and>
         (\<not> discardValueNames exampleFunction \<longrightarrow>
            (\<forall>lane < unat (2 :: 32 word).
               hasPrefix (condName lane) (blockName f' (conds ! lane)) \<and>
               hasPrefix (maskedName lane) (blockName f' (masks ! lane))) \<and>
            hasPrefix ''cascade_end'' (blockName f' end_bb)) \<and>
         (\<not> discardValueNames exampleFunction \<and> ''cascade_end'' \<notin> set (symtab exampleFunction) \<and>
          (\<forall>lane < unat (2 :: 32 word).
             condName lane \<notin> set (symtab exampleFunction) \<and>
             maskedName lane \<notin> set (symtab exampleFunction)) \<longrightarrow>
            map (blockName f') conds = map condName [0..<unat (2 :: 32 word)] \<and>
            map (blockName f') masks = map maskedName [0..<unat (2 :: 32 word)] \<and>
            blockName f' end_bb = ''cascade_end'')"
    by blast
  then show ?thesis
  proof (elim exE conjE)
    fix conds masks
    assume sp: "length conds = unat (2 :: 32 word)" "length masks = unat (2 :: 32 word)"
      "cs' = [] @ conds" "ms' = [] @ masks"
      "blocks f' = blocks exampleFunction @ interleave conds masks @ [end_bb]"
      "distinct (blocks exampleFunction) \<longrightarrow> distinct (blocks f')"
      "\<forall>b \<in> set (blocks exampleFunction). blockName f' b = blockName exampleFunction b"
      "\<not> discardValueNames exampleFunction \<and> ''cascade_end'' \<notin> set (symtab exampleFunction) \<and>
          (\<forall>lane < unat (2 :: 32 word).
             condName lane \<notin> set (symtab exampleFunction) \<and>
             maskedName lane \<notin> set (symtab exampleFunction)) \<longrightarrow>
            map (blockName f') conds = map condName [0..<unat (2 :: 32 word)] \<and>
            map (blockName f') masks = map maskedName [0..<unat (2 :: 32 word)] \<and>
            blockName f' end_bb = ''cascade_end''"
    from sp(1) obtain c0 c1 where c: "conds = [c0, c1]" using list_of_two [of conds] by auto
    from sp(2) obtain m0 m1 where m: "masks = [m0, m1]" using list_of_two [of masks] by auto
    from sp(8) free have n: "map (blockName f') conds = map condName [0..<unat (2 :: 32 word)]"
        "map (blockName f') masks = map maskedName [0..<unat (2 :: 32 word)]"
        "blockName f' end_bb = ''cascade_end''"
      by blast+
    have b: "blocks f' = [4, 2, c0, m0, c1, m1, end_bb]"
      using sp(5) by (simp add: c m interleave_two exampleFunction_def)
    have d: "distinct (blocks f')"
      using sp(6) by (simp add: exampleFunction_def)
    have o: "blockName f' 4 = ''entry''" "blockName f' 2 = ''exit''"
      using sp(7) by (simp_all add: exampleFunction_def)
    have "map (blockName f') [4, 2, c0, m0, c1, m1, end_bb] =
       [''entry'', ''exit'', ''cascade_cond_0'', ''cascade_masked_0'',
        ''cascade_cond_1'', ''cascade_masked_1'', ''cascade_end'']"
      using n o by (simp add: c m u condName_def maskedName_def)
    then show ?thesis
      using r sp(3,4) b d c m by auto
  qed
qed

text \<open>
  A second call on the same function finds the names taken: the symbol table appends
  its counter.
\<close>

lemma createCascadeBlocks_twice:
  "map_option (\<lambda>(end_bb, f', cs', ms'). (cs', ms', end_bb, map (blockName f') (cs' @ ms' @ [end_bb])))
     (case createCascadeBlocks exampleFunction 2 [] [] of
        None \<Rightarrow> None
      | Some (end_bb, f', cs', ms') \<Rightarrow> createCascadeBlocks f' 2 [] []) =
   Some ([10, 12], [11, 13], 14,
         [''cascade_cond_01'', ''cascade_cond_13'', ''cascade_masked_02'', ''cascade_masked_14'',
          ''cascade_end5''])"
  by (simp add: createCascadeBlocks_def createCascadeLoop.simps BasicBlock_Create_def setName_def
      createValueName_def makeUniqueName.simps exampleFunction_def Let_def)

section \<open>Properties of the linearization driver\<close>

lemma linearize_composition:
  "linearize c s =
     (True, (Linearizer_run c \<circ> Linearizer_construct c \<circ> expandRegionMasks c \<circ>
             domTree_recalculate c \<circ> postDomTree_recalculate c \<circ>
             transformDivergentLoops c \<circ> DivLoopTrans_construct c \<circ>
             MaskExpander_construct c \<circ> domTree_recalculate c) s)"
  by (simp add: linearize_def)

text \<open>
  Claim C4. \<open>VectorizerInterface::linearize\<close> runs its stages in a fixed order:
  divergent-loop normalization is the first pass to change the region (only a fresh
  dominator tree and the construction of the mask expander and of the normalizer come
  before it), then the post-dominator and the dominator tree are recomputed, then the
  region's masks are expanded, then the linearizer runs. So both trees are recomputed
  after normalization and before linearization, and mask expansion does not precede
  normalization. The call returns true.
\<close>

theorem linearize_stage_order:
  "linearize logging [] =
     (True, [DomTreeRecalculate, MaskExpanderConstruct, DivLoopTransConstruct,
             TransformDivergentLoops, PostDomTreeRecalculate, DomTreeRecalculate,
             ExpandRegionMasks, LinearizerConstruct, LinearizerRun]) \<and>
   dropWhile (\<lambda>e. e \<noteq> TransformDivergentLoops) (filter isPass (snd (linearize logging []))) =
     [TransformDivergentLoops, PostDomTreeRecalculate, DomTreeRecalculate,
      ExpandRegionMasks, LinearizerRun] \<and>
   takeWhile (\<lambda>e. e \<noteq> TransformDivergentLoops) (filter isPass (snd (linearize logging []))) =
     [DomTreeRecalculate]"
  by (simp add: linearize_def logging_def)

section \<open>Properties of the remainder transform\<close>

lemma createVectorizableLoop_rejects:
  assumes "\<not> fst (canHandleExitCondition F L) \<or> \<not> fst (canTransformLoop F L)"
  shows "createVectorizableLoop F L uniOverrides vectorWidth tripAlign = (None, F)"
  using assms
  by (auto simp: createVectorizableLoop_def canHandleExitCondition_def canTransformLoop_def)

lemma createVectorizableLoop_succeeds:
  assumes "fst (canTransformLoop F L)"
  shows "\<exists>mainLoop F'. createVectorizableLoop F L uniOverrides vectorWidth tripAlign = (Some mainLoop, F') \<and>
           mainLoop \<in> set (loops F') \<and>
           nat vectorWidth dvd tripCount mainLoop \<and>
           (\<exists>remainder \<in> set (loops F').
              tripCount mainLoop + tripCount remainder = tripCount L \<and>
              (0 < vectorWidth \<longrightarrow> tripCount remainder < nat vectorWidth))"
proof -
  let ?W = "nat vectorWidth"
  let ?main = "L\<lparr>tripCount := (tripCount L div ?W) * ?W\<rparr>"
  let ?rem = "L\<lparr>tripCount := tripCount L mod ?W\<rparr>"
  let ?F' = "F\<lparr>loops := ?main # ?rem # remove1 L (loops F)\<rparr>"
  have "createVectorizableLoop F L uniOverrides vectorWidth tripAlign = (Some ?main, ?F')"
    using assms
    by (simp add: createVectorizableLoop_def canHandleExitCondition_def canTransformLoop_def Let_def)
  moreover have "?main \<in> set (loops ?F')" "?rem \<in> set (loops ?F')"
    by simp_all
  moreover have "?W dvd tripCount ?main"
    by simp
  moreover have "tripCount ?main + tripCount ?rem = tripCount L"
    by simp
  moreover have "0 < vectorWidth \<longrightarrow> tripCount ?rem < ?W"
    by simp
  ultimately show ?thesis
    by blast
qed

text \<open>
  Claim C6. \<open>createVectorizableLoop\<close> returns none and leaves the function as it was
  whenever the exit-condition check or the full transformability check fails; the two
  checks themselves change nothing; and once \<open>canTransformLoop\<close> holds, the transform
  returns a loop of the function whose trip count is a multiple of the vector width,
  beside a remainder loop that runs the left-over iterations.
\<close>

theorem createVectorizableLoop_transactional:
  "(\<not> fst (canHandleExitCondition F L) \<or> \<not> fst (canTransformLoop F L)
      \<longrightarrow> createVectorizableLoop F L uniOverrides vectorWidth tripAlign = (None, F)) \<and>
   snd (canHandleExitCondition F L) = F \<and>
   snd (canTransformLoop F L) = F \<and>
   (fst (canTransformLoop F L) \<longrightarrow>
      (\<exists>mainLoop F'. createVectorizableLoop F L uniOverrides vectorWidth tripAlign = (Some mainLoop, F') \<and>
           mainLoop \<in> set (loops F') \<and>
           nat vectorWidth dvd tripCount mainLoop \<and>
           (\<exists>remainder \<in> set (loops F').
              tripCount mainLoop + tripCount remainder = tripCount L \<and>
              (0 < vectorWidth \<longrightarrow> tripCount remainder < nat vectorWidth))))"
proof (intro conjI impI)
  assume "\<not> fst (canHandleExitCondition F L) \<or> \<not> fst (canTransformLoop F L)"
  then show "createVectorizableLoop F L uniOverrides vectorWidth tripAlign = (None, F)"
    by (rule createVectorizableLoop_rejects)
next
  show "snd (canHandleExitCondition F L) = F"
    by (simp add: canHandleExitCondition_def)
next
  show "snd (canTransformLoop F L) = F"
    by (simp add: canTransformLoop_def canHandleExitCondition_def)
next
  assume "fst (canTransformLoop F L)"
  then show "\<exists>mainLoop F'. createVectorizableLoop F L uniOverrides vectorWidth tripAlign = (Some mainLoop, F') \<and>
           mainLoop \<in> set (loops F') \<and>
           nat vectorWidth dvd tripCount mainLoop \<and>
           (\<exists>remainder \<in> set (loops F').
              tripCount mainLoop + tripCount remainder = tripCount L \<and>
              (0 < vectorWidth \<longrightarrow> tripCount remainder < nat vectorWidth))"
    by (rule createVectorizableLoop_succeeds)
qed

theorem createVectorizableLoop_transactional_witness:
  "createVectorizableLoop
     \<lparr>loops = [\<lparr>exitTest = OtherExit, bodySupported = True, tripCount = 11\<rparr>]\<rparr>
     \<lparr>exitTest = OtherExit, bodySupported = True, tripCount = 11\<rparr> {} 4 1
     = (None, \<lparr>loops = [\<lparr>exitTest = OtherExit, bodySupported = True, tripCount = 11\<rparr>]\<rparr>) \<and>
   fst (createVectorizableLoop
     \<lparr>loops = [\<lparr>exitTest = InductionCompare, bodySupported = True, tripCount = 11\<rparr>]\<rparr>
     \<lparr>exitTest = InductionCompare, bodySupported = True, tripCount = 11\<rparr> {} 4 1)
     = Some \<lparr>exitTest = InductionCompare, bodySupported = True, tripCount = 8\<rparr>"
proof -
  let ?L = "\<lparr>exitTest = OtherExit, bodySupported = True, tripCount = 11\<rparr>"
  let ?K = "\<lparr>exitTest = InductionCompare, bodySupported = True, tripCount = 11\<rparr>"
  have n: "\<not> fst (canHandleExitCondition \<lparr>loops = [?L]\<rparr> ?L)"
    by (simp add: canHandleExitCondition_def)
  have y: "fst (canTransformLoop \<lparr>loops = [?K]\<rparr> ?K)"
    by (simp add: canTransformLoop_def canHandleExitCondition_def)
  have a: "createVectorizableLoop \<lparr>loops = [?L]\<rparr> ?L {} 4 1 = (None, \<lparr>loops = [?L]\<rparr>)"
    using createVectorizableLoop_transactional [of "\<lparr>loops = [?L]\<rparr>" ?L "{}" 4 1] n by blast
  from createVectorizableLoop_transactional [of "\<lparr>loops = [?K]\<rparr>" ?K "{}" 4 1] y
  obtain mainLoop F' where
    "createVectorizableLoop \<lparr>loops = [?K]\<rparr> ?K {} 4 1 = (Some mainLoop, F')"
    by blast
  then have b: "fst (createVectorizableLoop \<lparr>loops = [?K]\<rparr> ?K {} 4 1)
             = Some \<lparr>exitTest = InductionCompare, bodySupported = True, tripCount = 8\<rparr>"
    by (simp add: createVectorizableLoop_def canTransformLoop_def canHandleExitCondition_def Let_def)
  show ?thesis using a b by simp
qed

section \<open>Properties of the reduction optimizer\<close>

subsection \<open>The instruction store and the use lists\<close>

lemma map_of_map_at:
  "map_of (map (\<lambda>(i, x). if i = u then (i, f x) else (i, x)) xs) k
     = (if k = u then map_option f (map_of xs k) else map_of xs k)"
  by (induction xs) auto

lemma getInst_setOperand:
  "getInst (setOperand s user opIdx v) i =
     (if i = user
      then map_option (\<lambda>inst. inst\<lparr>operands := (operands inst)[opIdx := v]\<rparr>) (getInst s user)
      else getInst s i)"
  by (simp add: getInst_def setOperand_def map_of_map_at)

lemma getOperand_setOperand:
  "getOperand (setOperand s user opIdx v) u j =
     (if u = user \<and> j = opIdx
      then (case getOperand s user opIdx of None \<Rightarrow> None | Some _ \<Rightarrow> Some v)
      else getOperand s u j)"
  by (auto simp: getOperand_def getInst_setOperand split: option.splits)

lemma useOrder_setOperand:
  "useOrder (setOperand s user opIdx v) = (user, opIdx) # removeAll (user, opIdx) (useOrder s)"
  by (simp add: setOperand_def)

lemma keys_setOperand:
  "map fst (insts (setOperand s user opIdx v)) = map fst (insts s)"
  by (simp add: setOperand_def comp_def case_prod_unfold)

lemma in_uses_iff:
  "(u, j) \<in> set (uses s v) \<longleftrightarrow> (u, j) \<in> set (useOrder s) \<and> getOperand s u j = Some v"
  by (auto simp: uses_def)

lemma filter_removeAll_cong:
  assumes "\<And>y. y \<noteq> x \<Longrightarrow> P' y = P y"
  shows "filter P' (removeAll x xs) = removeAll x (filter P xs)"
  using assms by (induction xs) auto

lemma uses_setOperand_other:
  assumes "w \<noteq> v"
  shows "uses (setOperand s user opIdx v) w = removeAll (user, opIdx) (uses s w)"
proof -
  let ?P' = "\<lambda>(u, j). getOperand (setOperand s user opIdx v) u j = Some w"
  let ?P = "\<lambda>(u, j). getOperand s u j = Some w"
  have "\<not> ?P' (user, opIdx)"
    using assms by (simp add: getOperand_setOperand split: option.splits)
  moreover have "filter ?P' (removeAll (user, opIdx) (useOrder s))
                   = removeAll (user, opIdx) (filter ?P (useOrder s))"
    by (rule filter_removeAll_cong) (auto simp: getOperand_setOperand)
  ultimately show ?thesis
    by (simp add: uses_def useOrder_setOperand)
qed

text \<open>The second loop returns, and without an error, whenever the new value is not the latch itself.\<close>

lemma redirectLatchUsers_returns:
  assumes "latchUpdate \<noteq> VInst latchInst"
    and "set itUse \<subseteq> set (uses s (VInst latchInst))"
  shows "\<exists>s'. redirectLatchUsers vecInfo latchInst latchUpdate itUse s = Some (Inr s')"
  using assms(2)
proof (induction "(length (uses s (VInst latchInst)), length itUse)"
       arbitrary: s itUse rule: wf_induct_rule [OF wf_less_than [THEN wf_lex_prod [OF wf_less_than]] ])
  case less: 1
  show ?case
  proof (cases itUse)
    case Nil
    then show ?thesis by (subst redirectLatchUsers.simps) simp
  next
    case (Cons use itNext)
    obtain user opIdx where use: "use = (user, opIdx)" by (cases use)
    have mem: "(user, opIdx) \<in> set (uses s (VInst latchInst))"
      using less.prems Cons use by auto
    then have "getOperand s user opIdx = Some (VInst latchInst)"
      by (simp add: in_uses_iff)
    then obtain inst where inst: "getInst s user = Some inst"
      by (auto simp: getOperand_def split: option.splits)
    show ?thesis
    proof (cases "inRegion vecInfo inst")
      case True
      have "\<exists>s'. redirectLatchUsers vecInfo latchInst latchUpdate itNext s = Some (Inr s')"
        using less.prems Cons by (intro less.hyps) auto
      then show ?thesis
        using Cons use inst True by (subst redirectLatchUsers.simps) simp
    next
      case False
      let ?s' = "setOperand s user opIdx latchUpdate"
      have us: "uses ?s' (VInst latchInst) = removeAll (user, opIdx) (uses s (VInst latchInst))"
        using assms(1) by (intro uses_setOperand_other) simp
      have "length (uses ?s' (VInst latchInst)) < length (uses s (VInst latchInst))"
        unfolding us using mem by (simp add: length_removeAll_less)
      then have "\<exists>s'. redirectLatchUsers vecInfo latchInst latchUpdate (uses ?s' (VInst latchInst)) ?s' = Some (Inr s')"
        by (intro less.hyps) auto
      then show ?thesis
        using Cons use inst False by (subst redirectLatchUsers.simps) (simp add: Let_def)
    qed
  qed
qed

subsection \<open>Frames\<close>

text \<open>
  The frame of a function: its instructions in layout order with all but the values of
  their operands. Setting operands does not change it.
\<close>

definition frame :: "IR \<Rightarrow> (nat \<times> InstKind \<times> nat \<times> Type \<times> nat) list" where
  "frame s = map (\<lambda>(i, inst). (i, instKind inst, parent inst, getType inst, length (operands inst))) (insts s)"


definition userInRegion :: "VectorizationInfo \<Rightarrow> IR \<Rightarrow> nat \<Rightarrow> bool" where
  "userInRegion vecInfo s user =
     (case getInst s user of None \<Rightarrow> False | Some inst \<Rightarrow> inRegion vecInfo inst)"


lemma frame_keys: "map fst (frame s) = map fst (insts s)"
  by (simp add: frame_def comp_def case_prod_unfold)





lemma frame_blockInsts:
  assumes "frame s' = frame s"
  shows "blockInsts s' bb = blockInsts s bb"
proof -
  have "blockInsts t bb = map fst (filter (\<lambda>(i, k, p, r). p = bb) (frame t))" for t
    by (simp add: blockInsts_def frame_def filter_map comp_def case_prod_unfold)
  then show ?thesis using assms by simp
qed

lemma frame_setOperand [simp]: "frame (setOperand s user opIdx v) = frame s"
  by (simp add: frame_def setOperand_def comp_def case_prod_unfold if_distrib cong: if_cong)


subsection \<open>The first loop\<close>





subsection \<open>The second loop\<close>

lemma redirectLatchUsers_rule:
  assumes ne: "latchUpdate \<noteq> VInst latchInst"
    and split: "uses s (VInst latchInst) = pre @ itUse"
    and skipped: "\<forall>(u, j) \<in> set pre. userInRegion vecInfo s u"
    and inv: "I s"
    and step: "\<And>t u j. I t \<Longrightarrow> (u, j) \<in> set (uses t (VInst latchInst)) \<Longrightarrow>
                 \<not> userInRegion vecInfo t u \<Longrightarrow> I (setOperand t u j latchUpdate)"
  shows "\<exists>s'. redirectLatchUsers vecInfo latchInst latchUpdate itUse s = Some (Inr s') \<and> I s' \<and>
              (\<forall>(u, j) \<in> set (uses s' (VInst latchInst)). userInRegion vecInfo s' u)"
  using split skipped inv
proof (induction "(length (uses s (VInst latchInst)), length itUse)"
       arbitrary: s itUse pre rule: wf_induct_rule [OF wf_less_than [THEN wf_lex_prod [OF wf_less_than]] ])
  case less: 1
  show ?case
  proof (cases itUse)
    case Nil
    then show ?thesis
      using less.prems by (subst redirectLatchUsers.simps) auto
  next
    case (Cons use itNext)
    obtain user opIdx where use: "use = (user, opIdx)" by (cases use)
    have mem: "(user, opIdx) \<in> set (uses s (VInst latchInst))"
      using less.prems(1) Cons use by auto
    then have "getOperand s user opIdx = Some (VInst latchInst)"
      by (simp add: in_uses_iff)
    then obtain inst where inst: "getInst s user = Some inst"
      by (auto simp: getOperand_def split: option.splits)
    show ?thesis
    proof (cases "inRegion vecInfo inst")
      case True
      have sp: "uses s (VInst latchInst) = (pre @ [(user, opIdx)]) @ itNext"
        using less.prems(1) Cons use by simp
      have sk: "\<forall>(u, j) \<in> set (pre @ [(user, opIdx)]). userInRegion vecInfo s u"
        using less.prems(2) inst True by (auto simp: userInRegion_def)
      have "\<exists>s'. redirectLatchUsers vecInfo latchInst latchUpdate itNext s = Some (Inr s') \<and> I s' \<and>
              (\<forall>(u, j) \<in> set (uses s' (VInst latchInst)). userInRegion vecInfo s' u)"
        using Cons by (intro less.hyps [OF _ sp sk less.prems(3)]) simp
      then show ?thesis
        using Cons use inst True by (subst redirectLatchUsers.simps) simp
    next
      case False
      let ?s' = "setOperand s user opIdx latchUpdate"
      have us: "uses ?s' (VInst latchInst) = removeAll (user, opIdx) (uses s (VInst latchInst))"
        using ne by (intro uses_setOperand_other) simp
      have lt: "length (uses ?s' (VInst latchInst)) < length (uses s (VInst latchInst))"
        unfolding us using mem by (simp add: length_removeAll_less)
      have ext: "\<not> userInRegion vecInfo s user"
        using inst False by (simp add: userInRegion_def)
      have I': "I ?s'"
        using less.prems(3) mem ext by (rule step)
      have "\<exists>s'. redirectLatchUsers vecInfo latchInst latchUpdate (uses ?s' (VInst latchInst)) ?s' = Some (Inr s') \<and> I s' \<and>
              (\<forall>(u, j) \<in> set (uses s' (VInst latchInst)). userInRegion vecInfo s' u)"
        using lt by (intro less.hyps [where pre = "[]", OF _ _ _ I']) simp_all
      then show ?thesis
        using Cons use inst False by (subst redirectLatchUsers.simps) (simp add: Let_def)
    qed
  qed
qed


subsection \<open>Creation of the fold\<close>







lemma inRegion_setVectorShape [simp]:
  "inRegion (setVectorShape vecInfo v shape) inst = inRegion vecInfo inst"
  by (simp add: setVectorShape_def inRegion_def)

lemma userInRegion_setVectorShape [simp]:
  "userInRegion (setVectorShape vecInfo v shape) s u = userInRegion vecInfo s u"
  by (simp add: userInRegion_def cong: option.case_cong)


















subsection \<open>Two example loops\<close>

text \<open>
  A loop in block \<open>1\<close> (the region) that adds up the values of instruction \<open>2\<close>: the
  header phi \<open>1\<close> takes \<open>10\<close> from the preheader (block \<open>0\<close>) and the latch value
  \<open>3\<close> from the loop. In \<open>exampleLoop\<close> the phi and the latch value are also used
  after the loop (block \<open>2\<close>) and the latch value once more inside; in \<open>minimalLoop\<close>
  the phi has its one use in the latch instruction.
\<close>

definition exampleLoop :: IR where
  "exampleLoop = \<lparr>insts =
     [(10, \<lparr>instKind = OtherInst, operands = [], parent = 0, getType = IntegerTy 32\<rparr>),
      (1, \<lparr>instKind = PHINode, operands = [VInst 10, VInst 3], parent = 1, getType = IntegerTy 32\<rparr>),
      (2, \<lparr>instKind = OtherInst, operands = [], parent = 1, getType = IntegerTy 32\<rparr>),
      (3, \<lparr>instKind = ReductInst RedAdd, operands = [VInst 1, VInst 2], parent = 1, getType = IntegerTy 32\<rparr>),
      (4, \<lparr>instKind = OtherInst, operands = [VInst 3], parent = 1, getType = VoidTy\<rparr>),
      (5, \<lparr>instKind = OtherInst, operands = [VInst 3], parent = 2, getType = VoidTy\<rparr>),
      (6, \<lparr>instKind = OtherInst, operands = [VInst 1, VInst 3], parent = 2, getType = VoidTy\<rparr>)],
     useOrder = [(6, 1), (6, 0), (5, 0), (4, 0), (3, 1), (3, 0), (1, 1), (1, 0)]\<rparr>"

definition exampleInfo :: VectorizationInfo where
  "exampleInfo = \<lparr>region = Some {1}, entry = 1, shapes = (\<lambda>_. Varying)\<rparr>"

definition minimalLoop :: IR where
  "minimalLoop = \<lparr>insts =
     [(10, \<lparr>instKind = OtherInst, operands = [], parent = 0, getType = IntegerTy 32\<rparr>),
      (1, \<lparr>instKind = PHINode, operands = [VInst 10, VInst 3], parent = 1, getType = IntegerTy 32\<rparr>),
      (2, \<lparr>instKind = OtherInst, operands = [], parent = 1, getType = IntegerTy 32\<rparr>),
      (3, \<lparr>instKind = ReductInst RedAdd, operands = [VInst 1, VInst 2], parent = 1, getType = IntegerTy 32\<rparr>),
      (5, \<lparr>instKind = OtherInst, operands = [VInst 3], parent = 2, getType = VoidTy\<rparr>)],
     useOrder = [(5, 0), (3, 1), (3, 0), (1, 1), (1, 0)]\<rparr>"

subsection \<open>The claims about optimize\<close>

text \<open>
  Claim C2. For a reduction whose header phi has exactly one use, \<open>optimize\<close> returns
  false and leaves the function and the vectorization info as they were.
\<close>

theorem optimize_single_use:
  assumes "getNumUses s (VInst phi) = 1"
  shows "optimize vecInfo s phi red = Some (Inr (False, vecInfo, s))"
  using assms by (simp add: optimize_def)

theorem optimize_single_use_witness:
  "getNumUses minimalLoop (VInst 1) = 1 \<and>
   optimize exampleInfo minimalLoop 1 \<lparr>kind = RedAdd\<rparr> = Some (Inr (False, exampleInfo, minimalLoop))"
proof -
  have "getNumUses minimalLoop (VInst 1) = 1"
    by (simp add: getNumUses_def uses_def getOperand_def getInst_def minimalLoop_def)
  then show ?thesis
    using optimize_single_use [of minimalLoop 1 exampleInfo "\<lparr>kind = RedAdd\<rparr>"] by simp
qed

text \<open>
  Claim C10. The loop that redirects the users of the latch value outside the region,
  and that goes back to the beginning of the use list after every rewrite, returns for
  every use list, provided that the value it writes is not the latch instruction itself
  (in \<open>optimize\<close> it is the fold, a new instruction). It returns without an error,
  and no use outside the region is left. The reason: a rewrite takes the rewritten use
  out of the latch's use list, which gets shorter, and a use inside the region is only
  stepped over.
\<close>

theorem redirectLatchUsers_terminates:
  assumes "latchUpdate \<noteq> VInst latchInst"
  shows "(\<exists>s'. redirectLatchUsers vecInfo latchInst latchUpdate (uses s (VInst latchInst)) s = Some (Inr s') \<and>
               (\<forall>(user, opIdx) \<in> set (uses s' (VInst latchInst)). userInRegion vecInfo s' user)) \<and>
         (\<forall>(user, opIdx) \<in> set (uses s (VInst latchInst)).
             uses (setOperand s user opIdx latchUpdate) (VInst latchInst)
               = removeAll (user, opIdx) (uses s (VInst latchInst)) \<and>
             length (uses (setOperand s user opIdx latchUpdate) (VInst latchInst))
               < length (uses s (VInst latchInst)))"
proof (intro conjI)
  have "\<exists>s'. redirectLatchUsers vecInfo latchInst latchUpdate (uses s (VInst latchInst)) s = Some (Inr s') \<and> True \<and>
              (\<forall>(u, j) \<in> set (uses s' (VInst latchInst)). userInRegion vecInfo s' u)"
    by (rule redirectLatchUsers_rule [where pre = "[]" and I = "\<lambda>_. True"]) (simp_all add: assms)
  then show "\<exists>s'. redirectLatchUsers vecInfo latchInst latchUpdate (uses s (VInst latchInst)) s = Some (Inr s') \<and>
               (\<forall>(user, opIdx) \<in> set (uses s' (VInst latchInst)). userInRegion vecInfo s' user)"
    by simp
next
  show "\<forall>(user, opIdx) \<in> set (uses s (VInst latchInst)).
             uses (setOperand s user opIdx latchUpdate) (VInst latchInst)
               = removeAll (user, opIdx) (uses s (VInst latchInst)) \<and>
             length (uses (setOperand s user opIdx latchUpdate) (VInst latchInst))
               < length (uses s (VInst latchInst))"
  proof (intro ballI, clarify)
    fix user opIdx
    assume mem: "(user, opIdx) \<in> set (uses s (VInst latchInst))"
    have us: "uses (setOperand s user opIdx latchUpdate) (VInst latchInst)
                = removeAll (user, opIdx) (uses s (VInst latchInst))"
      using assms by (intro uses_setOperand_other) simp
    then show "uses (setOperand s user opIdx latchUpdate) (VInst latchInst)
               = removeAll (user, opIdx) (uses s (VInst latchInst)) \<and>
             length (uses (setOperand s user opIdx latchUpdate) (VInst latchInst))
               < length (uses s (VInst latchInst))"
      using mem by (simp add: length_removeAll_less)
  qed
qed

theorem redirectLatchUsers_terminates_witness:
  "\<exists>s'. redirectLatchUsers exampleInfo 3 (VInst 11) (uses exampleLoop (VInst 3)) exampleLoop = Some (Inr s') \<and>
        uses s' (VInst 3) = [(4, 0), (1, 1)]"
proof -
  have ne: "VInst 11 \<noteq> VInst 3" by simp
  from redirectLatchUsers_terminates [OF ne, of exampleInfo exampleLoop]
  obtain s' where
    r: "redirectLatchUsers exampleInfo 3 (VInst 11) (uses exampleLoop (VInst 3)) exampleLoop = Some (Inr s')"
    by blast
  have u: "uses exampleLoop (VInst 3) = [(6, 1), (5, 0), (4, 0), (1, 1)]"
    by (simp add: uses_def getOperand_def getInst_def exampleLoop_def)
  have "redirectLatchUsers exampleInfo 3 (VInst 11) [(6, 1), (5, 0), (4, 0), (1, 1)] exampleLoop = Some (Inr s')"
    using r u by simp
  then have "uses s' (VInst 3) = [(4, 0), (1, 1)]"
    by (auto simp: redirectLatchUsers.simps uses_def getOperand_def getInst_def exampleLoop_def
        exampleInfo_def inRegion_def setOperand_def Let_def)
  then show ?thesis using r by blast
qed






subsection \<open>The ways optimize can go\<close>





subsection \<open>Insertion of the fold, as run sees it\<close>

text \<open>Insertion of \<open>f\<close> right after \<open>l\<close> in a list of addresses.\<close>

fun insAfter :: "nat \<Rightarrow> nat \<Rightarrow> nat list \<Rightarrow> nat list" where
  "insAfter l f [] = []"
| "insAfter l f (x # xs) = (if x = l then x # f # xs else x # insAfter l f xs)"





lemma set_insAfter: "set (insAfter l f xs) \<subseteq> insert f (set xs)"
  by (induction xs) auto




lemma keys_frame: "set (map fst (frame s)) = set (map fst (insts s))"
  by (simp add: frame_keys)





subsection \<open>run\<close>












subsection \<open>The value of a reduction is preserved\<close>
















end
